theory Spec2Isabelle
  imports Complex_Main "HOL-Library.Sublist" "HOL-Library.AList"
begin

section \<open>JavaScript strings, exceptions and JSON values\<close>

text \<open>
  The component \<^verbatim>\<open>RuleEngine\<close> of \<^verbatim>\<open>RuleBuilder.tsx\<close> is modelled with explicit state
  passing: a handler maps the state in which it is called to the state it leaves. A handler
  runs to its end before another starts, and it reads the state variables as they are when
  it starts, as the closure of a render does; the interleaving of two pending handlers is
  outside the model.

  A JavaScript string is a \<^typ>\<open>string\<close>; each character stands for one code unit below
  256. String values decoded by \<^verbatim>\<open>JSON.parse\<close> may hold any code unit (through unicode
  escapes) and are lists of natural numbers. A rule id is an integer.
\<close>

text \<open>\<^verbatim>\<open>String.prototype.trim\<close>: white space and line terminators, as far as they are
  code units below 256 (TAB, LF, VT, FF, CR, SP, NBSP).\<close>

definition js_space :: "char \<Rightarrow> bool" where
  "js_space c = (c = CHR 0x09 \<or> c = CHR 0x0A \<or> c = CHR 0x0B \<or> c = CHR 0x0C \<or> c = CHR 0x0D
     \<or> c = CHR 0x20 \<or> c = CHR 0xA0)"

definition trim :: "string \<Rightarrow> string" where
  "trim s = rev (dropWhile js_space (rev (dropWhile js_space s)))"

text \<open>\<^verbatim>\<open>String.prototype.includes\<close>: the pattern occurs at some position, compared
  code unit by code unit (so case-sensitively).\<close>

primrec js_includes :: "string \<Rightarrow> string \<Rightarrow> bool" where
  "js_includes [] p = (p = [])"
| "js_includes (c # cs) p = (prefix p (c # cs) \<or> js_includes cs p)"

text \<open>The decimal form of a natural number, as a template literal prints a status code.\<close>

definition digit_char :: "nat \<Rightarrow> char" where
  "digit_char d = char_of (of_char CHR ''0'' + d)"

fun string_of_nat :: "nat \<Rightarrow> string" where
  "string_of_nat n =
     (if 10 \<le> n then string_of_nat (n div 10) @ [digit_char (n mod 10)]
      else [digit_char n])"

declare string_of_nat.simps [simp del]

text \<open>
  A thrown value: an \<^verbatim>\<open>Error\<close> with its message, its subclasses \<^verbatim>\<open>SyntaxError\<close> and
  \<^verbatim>\<open>TypeError\<close>, or a value that is no \<^verbatim>\<open>Error\<close> at all, with its \<^verbatim>\<open>String()\<close> form.
\<close>

datatype exn = Error string | SyntaxError string | TypeError string | NonError string

text \<open>\<^verbatim>\<open>err instanceof Error ? err.message : fallback\<close>\<close>

fun message_or :: "exn \<Rightarrow> string \<Rightarrow> string" where
  "message_or (Error m) fallback = m"
| "message_or (SyntaxError m) fallback = m"
| "message_or (TypeError m) fallback = m"
| "message_or (NonError s) fallback = fallback"

text \<open>\<^verbatim>\<open>err instanceof Error ? err.message : String(err)\<close>\<close>

fun message_or_String :: "exn \<Rightarrow> string" where
  "message_or_String (NonError s) = s"
| "message_or_String err = message_or err []"

text \<open>
  A JSON value as \<^verbatim>\<open>JSON.parse\<close> builds it. A number is kept as the exact value of its
  literal (the engine rounds it to a double, which nothing below looks at); an object is the
  list of its properties in the order of their first appearance (the engine lists integer-like
  names first, which nothing below looks at either).
\<close>

datatype json =
    JNull
  | JBool bool
  | JNumber rat
  | JString "nat list"
  | JArray "json list"
  | JObject "(nat list \<times> json) list"

text \<open>\<^verbatim>\<open>typeof\<close> on a parsed value.\<close>

fun typeof :: "json \<Rightarrow> string" where
  "typeof JNull = ''object''"
| "typeof (JBool b) = ''boolean''"
| "typeof (JNumber n) = ''number''"
| "typeof (JString s) = ''string''"
| "typeof (JArray vs) = ''object''"
| "typeof (JObject ps) = ''object''"

text \<open>\<^verbatim>\<open>Array.isArray\<close>\<close>

fun isArray :: "json \<Rightarrow> bool" where
  "isArray (JArray vs) = True"
| "isArray v = False"

section \<open>\<^verbatim>\<open>JSON.parse\<close>\<close>

text \<open>
  The JSON grammar (ECMA-404) as \<^verbatim>\<open>JSON.parse\<close> reads it, by recursive descent over the
  code units: white space is SP, TAB, LF and CR; a string holds no control character and
  the escapes of the grammar; a number is an optional minus, an integer part without a
  leading zero, an optional fraction and an optional exponent; a property set twice keeps
  its first place and its last value. Each parser gives the value and the text left.
\<close>

definition json_ws :: "char \<Rightarrow> bool" where
  "json_ws c = (c = CHR 0x20 \<or> c = CHR 0x09 \<or> c = CHR 0x0A \<or> c = CHR 0x0D)"

definition skip_ws :: "string \<Rightarrow> string" where
  "skip_ws s = dropWhile json_ws s"

definition is_digit :: "char \<Rightarrow> bool" where
  "is_digit c = (48 \<le> (of_char c :: nat) \<and> (of_char c :: nat) \<le> 57)"

definition digit_val :: "char \<Rightarrow> nat" where
  "digit_val c = of_char c - 48"

definition digits_val :: "string \<Rightarrow> nat" where
  "digits_val ds = foldl (\<lambda>n c. 10 * n + digit_val c) 0 ds"

definition hex_val :: "char \<Rightarrow> nat option" where
  "hex_val c =
     (let n = (of_char c :: nat) in
      if 48 \<le> n \<and> n \<le> 57 then Some (n - 48)
      else if 65 \<le> n \<and> n \<le> 70 then Some (n - 55)
      else if 97 \<le> n \<and> n \<le> 102 then Some (n - 87)
      else None)"

definition unescape :: "char \<Rightarrow> nat option" where
  "unescape e =
     (if e = CHR 0x22 then Some 0x22
      else if e = CHR 0x5C then Some 0x5C
      else if e = CHR ''/'' then Some 0x2F
      else if e = CHR ''b'' then Some 0x08
      else if e = CHR ''f'' then Some 0x0C
      else if e = CHR ''n'' then Some 0x0A
      else if e = CHR ''r'' then Some 0x0D
      else if e = CHR ''t'' then Some 0x09
      else None)"

fun parse_chars :: "string \<Rightarrow> nat list \<Rightarrow> (nat list \<times> string) option" where
  "parse_chars [] acc = None"
| "parse_chars (c # cs) acc =
     (if c = CHR 0x22 then Some (rev acc, cs)
      else if c = CHR 0x5C then
        (case cs of
           [] \<Rightarrow> None
         | e # cs' \<Rightarrow>
             if e = CHR ''u'' then
               (case cs' of
                  h1 # h2 # h3 # h4 # cs'' \<Rightarrow>
                    (case (hex_val h1, hex_val h2, hex_val h3, hex_val h4) of
                       (Some a, Some b, Some c, Some d) \<Rightarrow>
                         parse_chars cs'' ((((a * 16 + b) * 16 + c) * 16 + d) # acc)
                     | _ \<Rightarrow> None)
                | _ \<Rightarrow> None)
             else (case unescape e of None \<Rightarrow> None | Some n \<Rightarrow> parse_chars cs' (n # acc)))
      else if (of_char c :: nat) < 0x20 then None
      else parse_chars cs (of_char c # acc))"

definition parse_int_part :: "string \<Rightarrow> (string \<times> string) option" where
  "parse_int_part s =
     (case s of
        [] \<Rightarrow> None
      | c # cs \<Rightarrow>
          if c = CHR ''0'' then Some ([c], cs)
          else if is_digit c then Some (takeWhile is_digit s, dropWhile is_digit s)
          else None)"

definition parse_frac :: "string \<Rightarrow> (string \<times> string) option" where
  "parse_frac s =
     (case s of
        [] \<Rightarrow> Some ([], [])
      | c # cs \<Rightarrow>
          if c = CHR ''.'' then
            (if takeWhile is_digit cs = [] then None
             else Some (takeWhile is_digit cs, dropWhile is_digit cs))
          else Some ([], s))"

definition parse_exp :: "string \<Rightarrow> (int \<times> string) option" where
  "parse_exp s =
     (case s of
        [] \<Rightarrow> Some (0, [])
      | c # cs \<Rightarrow>
          if c = CHR ''e'' \<or> c = CHR ''E'' then
            (let neg = (cs \<noteq> [] \<and> hd cs = CHR ''-'');
                 ds = (if cs \<noteq> [] \<and> (hd cs = CHR ''-'' \<or> hd cs = CHR ''+'') then tl cs else cs)
             in if takeWhile is_digit ds = [] then None
                else Some ((if neg then - 1 else 1) * int (digits_val (takeWhile is_digit ds)),
                           dropWhile is_digit ds))
          else Some (0, s))"

definition parse_number :: "string \<Rightarrow> (rat \<times> string) option" where
  "parse_number s =
     (let neg = (s \<noteq> [] \<and> hd s = CHR ''-'');
          s0 = (if neg then tl s else s)
      in case parse_int_part s0 of
           None \<Rightarrow> None
         | Some (ids, s1) \<Rightarrow>
             (case parse_frac s1 of
                None \<Rightarrow> None
              | Some (fds, s2) \<Rightarrow>
                  (case parse_exp s2 of
                     None \<Rightarrow> None
                   | Some (e, s3) \<Rightarrow>
                       Some ((if neg then - 1 else 1)
                             * (of_nat (digits_val ids) + of_nat (digits_val fds) / 10 ^ length fds)
                             * (10 powi e), s3))))"

definition parse_literal :: "string \<Rightarrow> (json \<times> string) option" where
  "parse_literal s =
     (if prefix ''true'' s then Some (JBool True, drop 4 s)
      else if prefix ''false'' s then Some (JBool False, drop 5 s)
      else if prefix ''null'' s then Some (JNull, drop 4 s)
      else None)"

definition set_props :: "(nat list \<times> json) list \<Rightarrow> (nat list \<times> json) list" where
  "set_props ps = foldl (\<lambda>acc (k, v). AList.update k v acc) [] ps"

function parse_value :: "string \<Rightarrow> (json \<times> string) option"
  and parse_elements :: "string \<Rightarrow> (json list \<times> string) option"
  and parse_members :: "string \<Rightarrow> ((nat list \<times> json) list \<times> string) option"
where
  "parse_value s =
     (case skip_ws s of
        [] \<Rightarrow> None
      | c # cs \<Rightarrow>
          if c = CHR ''{'' then
            (case skip_ws cs of
               [] \<Rightarrow> None
             | d # ds \<Rightarrow>
                 if d = CHR ''}'' then Some (JObject [], ds)
                 else (case parse_members cs of
                         None \<Rightarrow> None
                       | Some (ps, rest) \<Rightarrow> Some (JObject (set_props ps), rest)))
          else if c = CHR ''['' then
            (case skip_ws cs of
               [] \<Rightarrow> None
             | d # ds \<Rightarrow>
                 if d = CHR '']'' then Some (JArray [], ds)
                 else (case parse_elements cs of
                         None \<Rightarrow> None
                       | Some (vs, rest) \<Rightarrow> Some (JArray vs, rest)))
          else if c = CHR 0x22 then
            (case parse_chars cs [] of
               None \<Rightarrow> None
             | Some (str, rest) \<Rightarrow> Some (JString str, rest))
          else if c = CHR ''-'' \<or> is_digit c then
            (case parse_number (c # cs) of
               None \<Rightarrow> None
             | Some (n, rest) \<Rightarrow> Some (JNumber n, rest))
          else parse_literal (c # cs))"
| "parse_elements s =
     (case parse_value s of
        None \<Rightarrow> None
      | Some (v, rest) \<Rightarrow>
          (case skip_ws rest of
             [] \<Rightarrow> None
           | c # cs \<Rightarrow>
               if c = CHR '']'' then Some ([v], cs)
               else if c = CHR '','' \<and> length cs < length s then
                 (case parse_elements cs of
                    None \<Rightarrow> None
                  | Some (vs, rest') \<Rightarrow> Some (v # vs, rest'))
               else None))"
| "parse_members s =
     (case skip_ws s of
        [] \<Rightarrow> None
      | q # cs \<Rightarrow>
          if q \<noteq> CHR 0x22 then None
          else (case parse_chars cs [] of
              None \<Rightarrow> None
            | Some (key, r1) \<Rightarrow>
                (case skip_ws r1 of
                   [] \<Rightarrow> None
                 | colon # r2 \<Rightarrow>
                     if colon = CHR '':'' \<and> length r2 < length s then
                       (case parse_value r2 of
                          None \<Rightarrow> None
                        | Some (v, r3) \<Rightarrow>
                            (case skip_ws r3 of
                               [] \<Rightarrow> None
                             | c # r4 \<Rightarrow>
                                 if c = CHR ''}'' then Some ([(key, v)], r4)
                                 else if c = CHR '','' \<and> length r4 < length s then
                                   (case parse_members r4 of
                                      None \<Rightarrow> None
                                    | Some (ps, rest) \<Rightarrow> Some ((key, v) # ps, rest))
                                 else None))
                     else None)))"
  by pat_completeness auto
termination
proof (relation "measure (\<lambda>x. case x of Inl s \<Rightarrow> 2 * length s
                                  | Inr (Inl s) \<Rightarrow> 2 * length s + 1
                                  | Inr (Inr s) \<Rightarrow> 2 * length s + 1)", goal_cases)
  case 1 show ?case by simp
next
  case (2 s c cs d ds)
  have "length (skip_ws s) \<le> length s" by (simp add: skip_ws_def length_dropWhile_le)
  with 2 show ?case by simp
next
  case (3 s c cs d ds)
  have "length (skip_ws s) \<le> length s" by (simp add: skip_ws_def length_dropWhile_le)
  with 3 show ?case by simp
qed simp_all

declare parse_value.simps [simp del] parse_elements.simps [simp del] parse_members.simps [simp del]

text \<open>\<^verbatim>\<open>JSON.parse(text)\<close> returns the value when nothing but white space follows it and
  throws a \<^verbatim>\<open>SyntaxError\<close> otherwise. The message of that error is the engine's own; the
  component never shows it.\<close>

definition JSON_parse :: "string \<Rightarrow> exn + json" where
  "JSON_parse s =
     (case parse_value s of
        None \<Rightarrow> Inl (SyntaxError ''Unexpected token'')
      | Some (v, rest) \<Rightarrow> if skip_ws rest = [] then Inr v else Inl (SyntaxError ''Unexpected token''))"

section \<open>The component's data\<close>

text \<open>The \<^verbatim>\<open>ast\<close> of a rule as the visualizer reads it: \<^verbatim>\<open>type\<close>, \<^verbatim>\<open>value\<close>,
  and the children \<^verbatim>\<open>left\<close> and \<^verbatim>\<open>right\<close>, each absent or a node.\<close>

datatype ast = Node (ast_type: string) (ast_value: "string option") (left: "ast option") (right: "ast option")

record rule =
  rule_id :: "int option"
  name :: string
  description :: string
  rule_string :: string
  ast :: "ast option"

datatype connective = AND | OR

record CombineRuleData =
  rules :: "int list"
  operator :: connective
  name :: string
  description :: string

datatype connection = connected | disconnected

definition BACKEND_URL :: string where
  "BACKEND_URL = ''http://localhost:8000''"

text \<open>The requests the component sends with \<^verbatim>\<open>fetch\<close>, by endpoint, with what their
  bodies carry.\<close>

datatype request =
    GetHealth
  | GetRules
  | PostRule string string string
  | DeleteRule int
  | PostCombine "int list" connective string string
  | PostEvaluate int json
  | PostEvaluateBatch "int option list" "json list"

text \<open>
  A decoded response body, by the views the component takes of it: as the \<^verbatim>\<open>Rule[]\<close> of
  the listing, and its properties \<^verbatim>\<open>detail\<close>, \<^verbatim>\<open>result\<close> and \<^verbatim>\<open>results\<close> (absent:
  \<open>None\<close>).
\<close>

record body =
  as_rules :: "rule list"
  detail :: "string option"
  result :: "bool option"
  results :: "json list"

text \<open>A response: its status, and what reading its body with \<^verbatim>\<open>await response.json()\<close>
  gives: the decoded body, or the exception thrown when the text is no JSON, or when the body
  is \<^verbatim>\<open>null\<close> and a property of it is read. \<^verbatim>\<open>response.ok\<close> holds for the statuses 200 to
  299.\<close>

record response =
  status :: nat
  json_body :: "exn + body"

definition ok :: "response \<Rightarrow> bool" where
  "ok r = (200 \<le> status r \<and> status r \<le> 299)"

datatype fetched = Rejected exn | Resolved response

text \<open>The backend and the network: what the \<open>n\<close>-th \<^verbatim>\<open>fetch\<close> of the session gives
  for its request.\<close>

type_synonym backend = "nat \<Rightarrow> request \<Rightarrow> fetched"

text \<open>The state variables of the component (\<^verbatim>\<open>useState\<close>), and \<open>sent\<close>, the requests
  issued so far, oldest first.\<close>

record state =
  rules :: "rule list"
  newRule :: rule
  selectedRule :: "rule option"
  evaluationData :: string
  evaluationResults :: "int \<Rightarrow> bool option"
  error :: string
  showDialog :: bool
  showCombineDialog :: bool
  isSubmitting :: bool
  isLoading :: bool
  connectionStatus :: connection
  selectedRules :: "int list"
  combineRuleData :: CombineRuleData
  batchData :: string
  batchResults :: "json list"
  sent :: "request list"

definition fetch :: "backend \<Rightarrow> request \<Rightarrow> state \<Rightarrow> fetched \<times> state" where
  "fetch be req st = (be (length (sent st)) req, st\<lparr>sent := sent st @ [req]\<rparr>)"

text \<open>
  A \<^verbatim>\<open>try\<close> block gives the state it leaves and the exception it throws, if any.
  The \<^verbatim>\<open>catch\<close> clauses of the component only set state, so a handler maps the
  exception and the state to a state.
\<close>

definition try_catch :: "exn option \<times> state \<Rightarrow> (exn \<Rightarrow> state \<Rightarrow> state) \<Rightarrow> exn option \<times> state" where
  "try_catch r h = (case r of (None, st) \<Rightarrow> (None, st) | (Some err, st) \<Rightarrow> (None, h err st))"

definition try_finally :: "exn option \<times> state \<Rightarrow> (state \<Rightarrow> state) \<Rightarrow> exn option \<times> state" where
  "try_finally r f = (fst r, f (snd r))"

section \<open>Connectivity and the rule listing\<close>

definition cannot_connect :: "state \<Rightarrow> state" where
  "cannot_connect st = st\<lparr>connectionStatus := disconnected,
     error := ''Cannot connect to backend server. Please ensure it is running at '' @ BACKEND_URL\<rparr>"

definition checkBackendConnection :: "backend \<Rightarrow> state \<Rightarrow> bool \<times> state" where
  "checkBackendConnection be st =
     (case fetch be GetHealth st of
        (Resolved response, st1) \<Rightarrow>
          if ok response then (True, st1\<lparr>connectionStatus := connected\<rparr>)
          else (False, cannot_connect st1)
      | (Rejected err, st1) \<Rightarrow> (False, cannot_connect st1))"

definition fetchRules_try :: "backend \<Rightarrow> state \<Rightarrow> exn option \<times> state" where
  "fetchRules_try be st =
     (case checkBackendConnection be (st\<lparr>isLoading := True\<rparr>) of
        (isConnected, st1) \<Rightarrow>
          if \<not> isConnected then (None, st1)
          else (case fetch be GetRules st1 of
              (Rejected err, st2) \<Rightarrow> (Some err, st2)
            | (Resolved response, st2) \<Rightarrow>
                if \<not> ok response
                then (Some (Error (''HTTP error! status: '' @ string_of_nat (status response))), st2)
                else (case json_body response of
                    Inl err \<Rightarrow> (Some err, st2)
                  | Inr data \<Rightarrow> (None, st2\<lparr>rules := as_rules data, error := ''''\<rparr>))))"

definition fetchRules :: "backend \<Rightarrow> state \<Rightarrow> exn option \<times> state" where
  "fetchRules be st =
     try_finally
       (try_catch (fetchRules_try be st)
          (\<lambda>err st'. st'\<lparr>error := ''Failed to fetch rules: '' @ message_or_String err\<rparr>))
       (\<lambda>st'. st'\<lparr>isLoading := False\<rparr>)"

section \<open>Deleting a rule\<close>

text \<open>\<^verbatim>\<open>deleteRule\<close> filters \<^verbatim>\<open>selectedRules\<close> as it was when the handler started
  (\<open>st\<close>); \<^verbatim>\<open>fetchRules\<close> does not write it.\<close>

definition deleteRule_try :: "backend \<Rightarrow> int \<Rightarrow> state \<Rightarrow> exn option \<times> state" where
  "deleteRule_try be ruleId st =
     (case fetch be (DeleteRule ruleId) st of
        (Rejected err, st1) \<Rightarrow> (Some err, st1)
      | (Resolved response, st1) \<Rightarrow>
          if \<not> ok response then (Some (Error ''Failed to delete rule''), st1)
          else (case fetchRules be st1 of
              (Some err, st2) \<Rightarrow> (Some err, st2)
            | (None, st2) \<Rightarrow>
                (None, st2\<lparr>selectedRules := filter (\<lambda>id. id \<noteq> ruleId) (selectedRules st)\<rparr>)))"

definition deleteRule :: "backend \<Rightarrow> int \<Rightarrow> state \<Rightarrow> exn option \<times> state" where
  "deleteRule be ruleId st =
     try_catch (deleteRule_try be ruleId st)
       (\<lambda>err st'. st'\<lparr>error := message_or err ''Failed to delete rule''\<rparr>)"

section \<open>Creating a rule\<close>

text \<open>\<^verbatim>\<open>validateRule\<close> returns nothing; the model gives the exception it throws, if any.\<close>

definition validateRule :: "rule \<Rightarrow> exn option" where
  "validateRule r =
     (if trim (rule.name r) = [] then Some (Error ''Rule name is required'')
      else if trim (rule_string r) = [] then Some (Error ''Rule expression is required'')
      else if \<not> js_includes (rule_string r) ''AND'' \<and> \<not> js_includes (rule_string r) ''OR''
        then Some (Error ''Rule must contain at least one operator (AND/OR)'')
      else None)"

text \<open>\<^verbatim>\<open>errorData.detail || fallback\<close>, as the message of the \<^verbatim>\<open>Error\<close> built from it.\<close>

definition detail_or :: "body \<Rightarrow> string \<Rightarrow> string" where
  "detail_or errorData fallback =
     (case detail errorData of
        None \<Rightarrow> fallback
      | Some d \<Rightarrow> if d = [] then fallback else d)"

definition emptyRule :: rule where
  "emptyRule = \<lparr>rule_id = None, name = '''', description = '''', rule_string = '''', ast = None\<rparr>"

definition createRule_try :: "backend \<Rightarrow> state \<Rightarrow> exn option \<times> state" where
  "createRule_try be st =
     (case checkBackendConnection be (st\<lparr>isSubmitting := True, error := ''''\<rparr>) of
        (isConnected, st1) \<Rightarrow>
          if \<not> isConnected then (None, st1)
          else (case validateRule (newRule st) of
              Some err \<Rightarrow> (Some err, st1)
            | None \<Rightarrow>
                (case fetch be (PostRule (trim (rule.name (newRule st)))
                                  (trim (rule.description (newRule st)))
                                  (trim (rule_string (newRule st)))) st1 of
                   (Rejected err, st2) \<Rightarrow> (Some err, st2)
                 | (Resolved response, st2) \<Rightarrow>
                     if \<not> ok response then
                       (case json_body response of
                          Inl err \<Rightarrow> (Some err, st2)
                        | Inr errorData \<Rightarrow>
                            (Some (Error (detail_or errorData ''Failed to create rule'')), st2))
                     else (case fetchRules be st2 of
                         (Some err, st3) \<Rightarrow> (Some err, st3)
                       | (None, st3) \<Rightarrow>
                           (None, st3\<lparr>newRule := emptyRule, showDialog := False\<rparr>)))))"

definition createRule :: "backend \<Rightarrow> state \<Rightarrow> exn option \<times> state" where
  "createRule be st =
     try_finally
       (try_catch (createRule_try be st)
          (\<lambda>err st'. st'\<lparr>error := message_or err ''Failed to create rule''\<rparr>))
       (\<lambda>st'. st'\<lparr>isSubmitting := False\<rparr>)"

section \<open>Combining rules\<close>

definition emptyCombineRuleData :: CombineRuleData where
  "emptyCombineRuleData =
     \<lparr>CombineRuleData.rules = [], operator = AND, name = '''', description = ''''\<rparr>"



text \<open>The button \<^verbatim>\<open>Combine Selected Rules\<close>: its \<^verbatim>\<open>disabled\<close> attribute, and a click on
  it, which runs \<^verbatim>\<open>onClick\<close> only when the button is enabled.\<close>

definition combineSelectedDisabled :: "state \<Rightarrow> bool" where
  "combineSelectedDisabled st = (length (selectedRules st) < 2)"

definition clickCombineSelected :: "state \<Rightarrow> state" where
  "clickCombineSelected st =
     (if combineSelectedDisabled st then st else st\<lparr>showCombineDialog := True\<rparr>)"

section \<open>Evaluating rules\<close>

definition validateJsonData_try :: "string \<Rightarrow> exn + bool" where
  "validateJsonData_try jsonString =
     (if trim jsonString = [] then Inl (Error ''Evaluation data cannot be empty'')
      else (case JSON_parse jsonString of
          Inl err \<Rightarrow> Inl err
        | Inr parsed \<Rightarrow>
            if typeof parsed \<noteq> ''object'' \<or> parsed = JNull
            then Inl (Error ''Data must be a JSON object or array'')
            else Inr True))"

definition validateJsonData :: "string \<Rightarrow> state \<Rightarrow> bool \<times> state" where
  "validateJsonData jsonString st =
     (case validateJsonData_try jsonString of
        Inr b \<Rightarrow> (b, st)
      | Inl (SyntaxError m) \<Rightarrow>
          (False, st\<lparr>error := ''Invalid JSON format. Please check your input.''\<rparr>)
      | Inl err \<Rightarrow> (False, st\<lparr>error := message_or err ''Invalid data format''\<rparr>))"

definition evaluateRule_try :: "backend \<Rightarrow> int \<Rightarrow> state \<Rightarrow> exn option \<times> state" where
  "evaluateRule_try be ruleId st =
     (case checkBackendConnection be (st\<lparr>error := ''''\<rparr>) of
        (isConnected, st1) \<Rightarrow>
          if \<not> isConnected then (None, st1)
          else (case validateJsonData (evaluationData st) st1 of
              (valid, st2) \<Rightarrow>
                if \<not> valid then (None, st2)
                else (case JSON_parse (evaluationData st) of
                    Inl err \<Rightarrow> (Some err, st2)
                  | Inr parsedData \<Rightarrow>
                      (case fetch be (PostEvaluate ruleId parsedData) st2 of
                         (Rejected err, st3) \<Rightarrow> (Some err, st3)
                       | (Resolved response, st3) \<Rightarrow>
                           if \<not> ok response then
                             (case json_body response of
                                Inl err \<Rightarrow> (Some err, st3)
                              | Inr errorData \<Rightarrow>
                                  (Some (Error (detail_or errorData ''Failed to evaluate rule'')), st3))
                           else (case json_body response of
                               Inl err \<Rightarrow> (Some err, st3)
                             | Inr res \<Rightarrow>
                                 (None, st3\<lparr>evaluationResults :=
                                    (evaluationResults st)(ruleId := result res)\<rparr>))))))"

definition evaluateRule :: "backend \<Rightarrow> int \<Rightarrow> state \<Rightarrow> exn option \<times> state" where
  "evaluateRule be ruleId st =
     try_catch (evaluateRule_try be ruleId st)
       (\<lambda>err st'. st'\<lparr>error := message_or err ''Failed to evaluate rule''\<rparr>)"

definition evaluateBatch_try :: "backend \<Rightarrow> state \<Rightarrow> exn option \<times> state" where
  "evaluateBatch_try be st =
     (case validateJsonData (batchData st) st of
        (valid, st1) \<Rightarrow>
          if \<not> valid then (None, st1)
          else (case JSON_parse (batchData st) of
              Inl err \<Rightarrow> (Some err, st1)
            | Inr dataList \<Rightarrow>
                (case dataList of
                   JArray items \<Rightarrow>
                     (case fetch be (PostEvaluateBatch (map rule_id (rules st)) items) st1 of
                        (Rejected err, st2) \<Rightarrow> (Some err, st2)
                      | (Resolved response, st2) \<Rightarrow>
                          if \<not> ok response then (Some (Error ''Failed to evaluate batch''), st2)
                          else (case json_body response of
                              Inl err \<Rightarrow> (Some err, st2)
                            | Inr res \<Rightarrow> (None, st2\<lparr>batchResults := results res\<rparr>)))
                 | _ \<Rightarrow> (Some (Error ''Batch data must be an array of objects''), st1))))"

definition evaluateBatch :: "backend \<Rightarrow> state \<Rightarrow> exn option \<times> state" where
  "evaluateBatch be st =
     try_catch (evaluateBatch_try be st)
       (\<lambda>err st'. st'\<lparr>error := message_or err ''Failed to evaluate batch''\<rparr>)"

section \<open>The visualizer's graph\<close>

text \<open>The nodes and edges handed to \<^verbatim>\<open>ReactFlow\<close>.\<close>

record graph_node =
  node_id :: string
  position :: "int \<times> int"
  label :: string
  node_type :: string

record graph_edge =
  edge_id :: string
  source :: string
  target :: string

text \<open>\<^verbatim>\<open>parentId ? `${parentId}-${node.type}` : 'root'\<close>: an absent and an empty
  \<^verbatim>\<open>parentId\<close> are both falsy.\<close>

definition nodeId_of :: "string option \<Rightarrow> string \<Rightarrow> string" where
  "nodeId_of parentId ty =
     (case parentId of
        None \<Rightarrow> ''root''
      | Some p \<Rightarrow> if p = [] then ''root'' else p @ ''-'' @ ty)"

text \<open>\<^verbatim>\<open>node.value || node.type\<close>\<close>

definition label_of :: "string option \<Rightarrow> string \<Rightarrow> string" where
  "label_of val ty = (case val of None \<Rightarrow> ty | Some v \<Rightarrow> if v = [] then ty else v)"

fun buildGraph :: "ast \<Rightarrow> string option \<Rightarrow> int \<times> int \<Rightarrow> graph_node list \<times> graph_edge list" where
  "buildGraph (Node ty val l r) parentId (px, py) =
     (let nodeId = nodeId_of parentId ty;
          newNodes = [\<lparr>node_id = nodeId, position = (px, py), label = label_of val ty,
                       node_type = ''default''\<rparr>];
          newEdges = [];
          (newNodes, newEdges) =
            (case l of
               None \<Rightarrow> (newNodes, newEdges)
             | Some lnode \<Rightarrow>
                 (let leftResults = buildGraph lnode (Some (nodeId @ ''-left'')) (px - 100, py + 100)
                  in (newNodes @ fst leftResults,
                      newEdges @ snd leftResults @
                        [\<lparr>edge_id = nodeId @ ''-left'', source = nodeId,
                          target = nodeId @ ''-left-'' @ ast_type lnode\<rparr>])));
          (newNodes, newEdges) =
            (case r of
               None \<Rightarrow> (newNodes, newEdges)
             | Some rnode \<Rightarrow>
                 (let rightResults = buildGraph rnode (Some (nodeId @ ''-right'')) (px + 100, py + 100)
                  in (newNodes @ fst rightResults,
                      newEdges @ snd rightResults @
                        [\<lparr>edge_id = nodeId @ ''-right'', source = nodeId,
                          target = nodeId @ ''-right-'' @ ast_type rnode\<rparr>])))
      in (newNodes, newEdges))"

text \<open>The number of nodes of an AST, and the strict binary ASTs: every node has both
  children or none.\<close>

fun ast_nodes :: "ast \<Rightarrow> nat" where
  "ast_nodes (Node ty val l r) =
     1 + (case l of None \<Rightarrow> 0 | Some lnode \<Rightarrow> ast_nodes lnode)
       + (case r of None \<Rightarrow> 0 | Some rnode \<Rightarrow> ast_nodes rnode)"

fun strict_binary :: "ast \<Rightarrow> bool" where
  "strict_binary (Node ty val l r) =
     (case (l, r) of
        (None, None) \<Rightarrow> True
      | (Some lnode, Some rnode) \<Rightarrow> strict_binary lnode \<and> strict_binary rnode
      | _ \<Rightarrow> False)"

text \<open>
  An AST node is named by the path that leads to it from the root: the sides taken, in
  order. \<^verbatim>\<open>ast_paths\<close> lists the nodes of an AST in the order in which \<^verbatim>\<open>buildGraph\<close>
  visits them (a node, then its left subtree, then its right subtree), and \<^verbatim>\<open>subtree\<close>
  is the node that a path leads to, when there is one.
\<close>

datatype side = OnLeft | OnRight

fun ast_paths :: "ast \<Rightarrow> side list list" where
  "ast_paths (Node ty val l r) =
     [] # (case l of None \<Rightarrow> [] | Some lnode \<Rightarrow> map ((#) OnLeft) (ast_paths lnode))
        @ (case r of None \<Rightarrow> [] | Some rnode \<Rightarrow> map ((#) OnRight) (ast_paths rnode))"

fun subtree :: "ast \<Rightarrow> side list \<Rightarrow> ast option" where
  "subtree t [] = Some t"
| "subtree t (OnLeft # p) = (case left t of None \<Rightarrow> None | Some lnode \<Rightarrow> subtree lnode p)"
| "subtree t (OnRight # p) = (case right t of None \<Rightarrow> None | Some rnode \<Rightarrow> subtree rnode p)"

text \<open>The label that the visualizer shows for the AST node at a path:
  \<^verbatim>\<open>node.value || node.type\<close> of that node.\<close>

definition label_at :: "ast \<Rightarrow> side list \<Rightarrow> string" where
  "label_at t p = (case subtree t p of None \<Rightarrow> [] | Some s \<Rightarrow> label_of (ast_value s) (ast_type s))"

text \<open>A parent-child pair of an AST: the second path is the first one followed by one more
  side.\<close>

definition parent_child :: "side list \<Rightarrow> side list \<Rightarrow> bool" where
  "parent_child p q = (q = p @ [OnLeft] \<or> q = p @ [OnRight])"

text \<open>The two ends of an edge, and, for AST nodes listed with their graph nodes, the pairs
  of ids that the parent-child pairs give: the id of the parent's graph node and the id of
  the child's.\<close>

definition edge_ends :: "graph_edge \<Rightarrow> string \<times> string" where
  "edge_ends e = (source e, target e)"

definition linked_ids :: "(side list \<times> graph_node) list \<Rightarrow> (string \<times> string) list" where
  "linked_ids zs = [(node_id n, node_id c). (p, n) \<leftarrow> zs, (q, c) \<leftarrow> zs, parent_child p q]"

section \<open>The rule engine of the backend\<close>

text \<open>
  The tokenizer, the parser and the combinator run in the backend (\<^verbatim>\<open>backend/main.py\<close>),
  which is not among the source files. They are modelled from the specification
  (sections 3, 4.1, 4.2, 4.4 and 7).
\<close>

text \<open>Modelled from the spec: the token kinds of the backend's tokenizer (section 3).\<close>

datatype kind = IDENTIFIER | NUMBER | STRING | COMPARATOR | LOGICAL_AND | LOGICAL_OR | LPAREN | RPAREN

text \<open>Modelled from the spec: a token of the backend, its kind and its literal text (section 3).\<close>

type_synonym token = "kind \<times> string"

text \<open>Modelled from the spec: what a syntax error of the backend reports: the unrecognized character and its position, the position of a string literal left open, tokens exhausted, a token where another kind is expected, tokens left after the expression (sections 4.1, 4.2).\<close>

datatype syntax_reason =
    UnrecognizedCharacter char nat
  | UnterminatedString nat
  | UnexpectedEnd
  | UnexpectedToken token
  | TrailingTokens

text \<open>Modelled from the spec: the error taxonomy of the backend (section 7).\<close>

datatype engine_error = Syntax_Error syntax_reason | Evaluation_Error string | Validation_Error

text \<open>Modelled from the spec: the white space the backend's tokenizer skips (section 4.1 names none; SP, TAB, LF, VT, FF and CR are taken).\<close>

definition is_space :: "char \<Rightarrow> bool" where
  "is_space c = (c = CHR 0x20 \<or> c = CHR 0x09 \<or> c = CHR 0x0A \<or> c = CHR 0x0B \<or> c = CHR 0x0C
     \<or> c = CHR 0x0D)"

text \<open>Modelled from the spec: the letters and the underscore that make up a word of the backend's tokenizer (section 4.1).\<close>

definition is_letter :: "char \<Rightarrow> bool" where
  "is_letter c = ((65 \<le> (of_char c :: nat) \<and> (of_char c :: nat) \<le> 90)
     \<or> (97 \<le> (of_char c :: nat) \<and> (of_char c :: nat) \<le> 122) \<or> c = CHR ''_'')"

text \<open>Modelled from the spec: upper-casing of a letter, for the case-insensitive comparison of the backend's tokenizer with its keywords (section 4.1).\<close>

definition upper :: "char \<Rightarrow> char" where
  "upper c = (if 97 \<le> (of_char c :: nat) \<and> (of_char c :: nat) \<le> 122
              then char_of ((of_char c :: nat) - 32) else c)"

text \<open>Modelled from the spec: the token of a word in the backend's tokenizer: a keyword when it is AND or OR in any letter case, an identifier otherwise (section 4.1).\<close>

definition word_token :: "string \<Rightarrow> token" where
  "word_token w =
     (if map upper w = ''AND'' then (LOGICAL_AND, w)
      else if map upper w = ''OR'' then (LOGICAL_OR, w)
      else (IDENTIFIER, w))"

text \<open>Modelled from the spec: putting a token before the tokens of the rest, in the backend's tokenizer; an error of the rest is the result.\<close>

definition emit :: "token \<Rightarrow> engine_error + token list \<Rightarrow> engine_error + token list" where
  "emit t r = (case r of Inl e \<Rightarrow> Inl e | Inr ts \<Rightarrow> Inr (t # ts))"

text \<open>Modelled from the spec: the single left-to-right scan of the backend's tokenizer from a position (section 4.1). A number is a run of digits, with one decimal point and the digits after it when the point follows the run.\<close>

function tokenize_from :: "nat \<Rightarrow> string \<Rightarrow> engine_error + token list" where
  "tokenize_from pos [] = Inr []"
| "tokenize_from pos (c # cs) =
     (if is_space c then tokenize_from (pos + 1) cs
      else if is_digit c then
        (let ds = takeWhile is_digit (c # cs); r = dropWhile is_digit (c # cs)
         in if r \<noteq> [] \<and> hd r = CHR ''.''
            then (let fs = takeWhile is_digit (tl r)
                  in emit (NUMBER, ds @ ''.'' @ fs)
                       (tokenize_from (pos + length ds + 1 + length fs) (dropWhile is_digit (tl r))))
            else emit (NUMBER, ds) (tokenize_from (pos + length ds) r))
      else if c = CHR 0x27 \<or> c = CHR 0x22 then
        (let content = takeWhile (\<lambda>d. d \<noteq> c) cs; r = dropWhile (\<lambda>d. d \<noteq> c) cs
         in if r = [] then Inl (Syntax_Error (UnterminatedString pos))
            else emit (STRING, content) (tokenize_from (pos + length content + 2) (tl r)))
      else if is_letter c then
        (let w = takeWhile is_letter (c # cs)
         in emit (word_token w) (tokenize_from (pos + length w) (dropWhile is_letter (c # cs))))
      else if c = CHR ''>'' \<or> c = CHR ''<'' \<or> c = CHR ''='' then
        (if cs \<noteq> [] \<and> hd cs = CHR ''=''
         then emit (COMPARATOR, [c, CHR ''='']) (tokenize_from (pos + 2) (tl cs))
         else emit (COMPARATOR, [c]) (tokenize_from (pos + 1) cs))
      else if c = CHR ''('' then emit (LPAREN, ''('') (tokenize_from (pos + 1) cs)
      else if c = CHR '')'' then emit (RPAREN, '')'') (tokenize_from (pos + 1) cs)
      else Inl (Syntax_Error (UnrecognizedCharacter c pos)))"
  by pat_completeness auto
termination
proof (relation "measure (\<lambda>(pos, s). length s)", goal_cases)
  case 1 show ?case by simp
next
  case (2 pos c cs) then show ?case by simp
next
  case (3 pos c cs ds r fs)
  have "length (dropWhile is_digit (tl r)) \<le> length (tl r)" by (rule length_dropWhile_le)
  moreover have "length (tl r) \<le> length r" by simp
  moreover have "length r \<le> length (c # cs)" unfolding 3(4) by (rule length_dropWhile_le)
  ultimately show ?case by simp
next
  case (4 pos c cs ds r)
  have "r = dropWhile is_digit cs" using 4 by simp
  moreover have "length (dropWhile is_digit cs) \<le> length cs" by (rule length_dropWhile_le)
  ultimately show ?case by simp
next
  case (5 pos c cs content r)
  have "length r \<le> length cs" unfolding 5(5) by (rule length_dropWhile_le)
  moreover have "length (tl r) \<le> length r" by simp
  ultimately show ?case by simp
next
  case (6 pos c cs w)
  have "length (dropWhile is_letter cs) \<le> length cs" by (rule length_dropWhile_le)
  with 6 show ?case by simp
next
  case (7 pos c cs)
  then show ?case by (cases cs) auto
qed simp_all

text \<open>Modelled from the spec: the backend's \<^verbatim>\<open>tokenize\<close> (section 4.1).\<close>

definition tokenize :: "string \<Rightarrow> engine_error + token list" where
  "tokenize ruleString = tokenize_from 0 ruleString"

text \<open>Modelled from the spec: the comparators of an operand node of the backend's AST (section 3).\<close>

datatype comparator = Gt | Lt | Eq | Ge | Le

text \<open>Modelled from the spec: the literal of an operand node of the backend's AST (section 3).\<close>

datatype literal = LNumber rat | LString string | LBoolean bool

text \<open>Modelled from the spec: the AST node of the backend, an operator node or an operand node (section 3).\<close>

datatype node = Operator connective node node | Operand string comparator literal

text \<open>Modelled from the spec: the comparator a COMPARATOR token of the backend stands for (sections 3, 4.1).\<close>

definition comparator_of :: "string \<Rightarrow> comparator option" where
  "comparator_of s =
     (if s = ''>'' then Some Gt else if s = ''<'' then Some Lt else if s = ''='' then Some Eq
      else if s = ''>='' then Some Ge else if s = ''<='' then Some Le else None)"

text \<open>Modelled from the spec: the value of a NUMBER token of the backend.\<close>

definition number_of :: "string \<Rightarrow> rat" where
  "number_of s =
     (let ds = takeWhile is_digit s; fs = takeWhile is_digit (drop (length ds + 1) s)
      in of_nat (digits_val ds) + of_nat (digits_val fs) / 10 ^ length fs)"

text \<open>Modelled from the spec: the backend parser's \<^verbatim>\<open>Comparison := IDENTIFIER COMPARATOR (NUMBER | STRING)\<close> (section 4.2).\<close>

definition parse_comparison :: "token list \<Rightarrow> engine_error + node \<times> token list" where
  "parse_comparison ts =
     (case ts of
        [] \<Rightarrow> Inl (Syntax_Error UnexpectedEnd)
      | (k1, field) # ts1 \<Rightarrow>
          if k1 \<noteq> IDENTIFIER then Inl (Syntax_Error (UnexpectedToken (k1, field)))
          else (case ts1 of
              [] \<Rightarrow> Inl (Syntax_Error UnexpectedEnd)
            | (k2, cmp) # ts2 \<Rightarrow>
                (case (if k2 = COMPARATOR then comparator_of cmp else None) of
                   None \<Rightarrow> Inl (Syntax_Error (UnexpectedToken (k2, cmp)))
                 | Some cmp' \<Rightarrow>
                     (case ts2 of
                        [] \<Rightarrow> Inl (Syntax_Error UnexpectedEnd)
                      | (k3, v) # ts3 \<Rightarrow>
                          if k3 = NUMBER then Inr (Operand field cmp' (LNumber (number_of v)), ts3)
                          else if k3 = STRING then Inr (Operand field cmp' (LString v), ts3)
                          else Inl (Syntax_Error (UnexpectedToken (k3, v)))))))"

text \<open>Modelled from the spec: the backend parser's \<^verbatim>\<open>Expression := Primary ((LOGICAL_AND | LOGICAL_OR) Primary)*\<close>, a left-leaning chain, and \<^verbatim>\<open>Primary := LPAREN Expression RPAREN | Comparison\<close> (section 4.2). Each parser gives the node and the tokens left; the comparisons of lengths hold whenever a primary is parsed and only make the recursion well-founded.\<close>

function parse_expression :: "token list \<Rightarrow> engine_error + node \<times> token list"
  and parse_chain :: "node \<Rightarrow> token list \<Rightarrow> engine_error + node \<times> token list"
  and parse_primary :: "token list \<Rightarrow> engine_error + node \<times> token list"
where
  "parse_expression ts =
     (case parse_primary ts of
        Inl e \<Rightarrow> Inl e
      | Inr (first, rest) \<Rightarrow>
          if length rest < length ts then parse_chain first rest
          else Inl (Syntax_Error UnexpectedEnd))"
| "parse_chain l [] = Inr (l, [])"
| "parse_chain l ((k, t) # ts) =
     (if k = LOGICAL_AND \<or> k = LOGICAL_OR then
        (case parse_primary ts of
           Inl e \<Rightarrow> Inl e
         | Inr (r, rest) \<Rightarrow>
             if length rest \<le> length ts
             then parse_chain (Operator (if k = LOGICAL_AND then AND else OR) l r) rest
             else Inl (Syntax_Error UnexpectedEnd))
      else Inr (l, (k, t) # ts))"
| "parse_primary [] = Inl (Syntax_Error UnexpectedEnd)"
| "parse_primary ((k, t) # ts) =
     (if k = LPAREN then
        (case parse_expression ts of
           Inl e \<Rightarrow> Inl e
         | Inr (e, rest) \<Rightarrow>
             (case rest of
                [] \<Rightarrow> Inl (Syntax_Error UnexpectedEnd)
              | (k', t') # rest' \<Rightarrow>
                  if k' = RPAREN then Inr (e, rest')
                  else Inl (Syntax_Error (UnexpectedToken (k', t')))))
      else parse_comparison ((k, t) # ts))"
  by pat_completeness auto
termination
  by (relation "measure (\<lambda>x. case x of Inl ts \<Rightarrow> 3 * length ts + 2
                                | Inr (Inl (l, ts)) \<Rightarrow> 3 * length ts
                                | Inr (Inr ts) \<Rightarrow> 3 * length ts + 1)") auto

declare parse_expression.simps [simp del]

text \<open>Modelled from the spec: the backend's \<^verbatim>\<open>parse\<close>, which fails when tokens remain after the expression (section 4.2).\<close>

definition parse :: "token list \<Rightarrow> engine_error + node" where
  "parse ts =
     (case parse_expression ts of
        Inl e \<Rightarrow> Inl e
      | Inr (tree, rest) \<Rightarrow> if rest = [] then Inr tree else Inl (Syntax_Error TrailingTokens))"

text \<open>Modelled from the spec: the backend's \<^verbatim>\<open>Parse\<close> of a rule string (section 6); a rule string conforms to the grammar when it gives a node.\<close>

definition Parse :: "string \<Rightarrow> engine_error + node" where
  "Parse ruleString = (case tokenize ruleString of Inl e \<Rightarrow> Inl e | Inr ts \<Rightarrow> parse ts)"

text \<open>Modelled from the spec: the backend's \<^verbatim>\<open>combine\<close> (section 4.4): at least two roots, folded left to right into a chain of operator nodes of the connective; fewer than two fail with the validation error.\<close>

definition combine :: "node list \<Rightarrow> connective \<Rightarrow> engine_error + node" where
  "combine roots c =
     (case roots of
        r1 # r2 # rest \<Rightarrow> Inr (foldl (Operator c) (Operator c r1 r2) rest)
      | _ \<Rightarrow> Inl Validation_Error)"

section \<open>Example backends and states\<close>

text \<open>The state of the component when it is mounted: the initial values of its
  \<^verbatim>\<open>useState\<close> calls, and no request sent.\<close>

definition initialState :: state where
  "initialState =
     \<lparr>rules = [], newRule = emptyRule, selectedRule = None, evaluationData = '''',
      evaluationResults = (\<lambda>ruleId. None), error = '''', showDialog = False,
      showCombineDialog = False, isSubmitting = False, isLoading = True,
      connectionStatus = disconnected, selectedRules = [],
      combineRuleData = emptyCombineRuleData, batchData = '''', batchResults = [],
      sent = []\<rparr>"

text \<open>A backend that cannot be reached: every \<^verbatim>\<open>fetch\<close> rejects.\<close>

definition backend_down :: backend where
  "backend_down n req = Rejected (TypeError ''Failed to fetch'')"

text \<open>A backend that answers every request with status 200 and the given body.\<close>

definition backend_up :: "body \<Rightarrow> backend" where
  "backend_up b n req = Resolved \<lparr>status = 200, json_body = Inr b\<rparr>"

definition emptyBody :: body where
  "emptyBody = \<lparr>as_rules = [], detail = None, result = None, results = []\<rparr>"


text \<open>Whether the health check made in state \<open>st\<close> succeeds: the request resolves
  with a status in 200..299.\<close>

definition health_ok :: "backend \<Rightarrow> state \<Rightarrow> bool" where
  "health_ok be st =
     (case be (length (sent st)) GetHealth of
        Resolved response \<Rightarrow> ok response
      | Rejected err \<Rightarrow> False)"


definition new_requests :: "state \<Rightarrow> state \<Rightarrow> request list" where
  "new_requests st st' = drop (length (sent st)) (sent st')"

text \<open>A parsed value that is a JSON object (and no array).\<close>

fun isObject :: "json \<Rightarrow> bool" where
  "isObject (JObject ps) = True"
| "isObject v = False"

text \<open>Modelled from the spec: the Record of section 3, the input to evaluation: a mapping
  from field names to a number, a string, a boolean or null. No source file declares it.\<close>

fun is_scalar :: "json \<Rightarrow> bool" where
  "is_scalar (JArray vs) = False"
| "is_scalar (JObject ps) = False"
| "is_scalar v = True"

text \<open>Modelled from the spec: a parsed value that is a Record of section 3.\<close>

fun is_Record :: "json \<Rightarrow> bool" where
  "is_Record (JObject ps) = list_all (\<lambda>(field, v). is_scalar v) ps"
| "is_Record v = False"

text \<open>Two listed rules, with the ids 7 and 9.\<close>

definition listedRules :: "rule list" where
  "listedRules = [emptyRule\<lparr>rule_id := Some 7\<rparr>, emptyRule\<lparr>rule_id := Some 9\<rparr>]"

text \<open>Rules as a user may enter them: a single comparison, a conjunction, and the same
  conjunction with its connective in lower case.\<close>

definition comparisonRule :: rule where
  "comparisonRule = emptyRule\<lparr>rule.name := ''adults'', rule_string := ''age > 30''\<rparr>"

definition conjunctionRule :: rule where
  "conjunctionRule = emptyRule\<lparr>rule.name := ''seniors'', rule_string := ''age > 30 AND salary > 5''\<rparr>"

definition lowercaseRule :: rule where
  "lowercaseRule = emptyRule\<lparr>rule.name := ''seniors'', rule_string := ''age > 30 and salary > 5''\<rparr>"

text \<open>A rule whose only connective is in lower case, and whose first field name contains
  \<^verbatim>\<open>OR\<close> in upper case.\<close>

definition floorRule :: rule where
  "floorRule = emptyRule\<lparr>rule.name := ''levels'', rule_string := ''FLOOR > 2 and x > 3''\<rparr>"

text \<open>The ids of the graph nodes that \<^verbatim>\<open>buildGraph\<close> returns, in their order.\<close>

definition graph_ids :: "ast \<Rightarrow> string option \<Rightarrow> int \<times> int \<Rightarrow> string list" where
  "graph_ids t parentId pos = map node_id (fst (buildGraph t parentId pos))"

text \<open>The AST nodes of a tree, each with the graph node that \<^verbatim>\<open>buildGraph\<close> returns at
  the same place of its list.\<close>

definition path_nodes :: "ast \<Rightarrow> string option \<Rightarrow> int \<times> int \<Rightarrow> (side list \<times> graph_node) list" where
  "path_nodes t parentId pos = zip (ast_paths t) (fst (buildGraph t parentId pos))"

text \<open>The AST of \<^verbatim>\<open>(age > 30 AND department = Sales) OR experience >= 5\<close> as the
  visualizer receives it.\<close>

definition sampleAst :: ast where
  "sampleAst =
     Node ''operator'' (Some ''OR'')
       (Some (Node ''operator'' (Some ''AND'')
          (Some (Node ''operand'' (Some ''age > 30'') None None))
          (Some (Node ''operand'' (Some ''department = Sales'') None None))))
       (Some (Node ''operand'' (Some ''experience >= 5'') None None))"

section \<open>The parsers consume their input\<close>

text \<open>
  Every parser that returns a value has consumed at least one character or token. So the
  comparisons of lengths in \<open>parse_elements\<close>, \<open>parse_members\<close>, \<open>parse_expression\<close> and
  \<open>parse_chain\<close>, which make the recursions well-founded, always hold where they are tested:
  the functions satisfy their equations without them.
\<close>

lemma skip_ws_length: "length (skip_ws s) \<le> length s"
  by (simp add: skip_ws_def length_dropWhile_le)

lemma skip_ws_Cons_length: "skip_ws s = c # cs \<Longrightarrow> length cs < length s"
  using skip_ws_length [of s] by simp

lemma parse_chars_step:
  assumes "parse_chars (c # cs) acc = Some (str, rest)"
  shows "rest = cs \<or> (\<exists>r acc'. parse_chars r acc' = Some (str, rest) \<and> length r \<le> length cs)"
proof (cases "c = CHR 0x22")
  case True
  with assms show ?thesis by simp
next
  case False
  note nq = this
  show ?thesis
  proof (cases "c = CHR 0x5C")
    case False
    with assms nq have "parse_chars cs (of_char c # acc) = Some (str, rest)"
      by (simp split: if_splits)
    then show ?thesis by blast
  next
    case True
    with assms nq obtain e cs' where cs: "cs = e # cs'" by (cases cs) auto
    show ?thesis
    proof (cases "e = CHR ''u''")
      case False
      with assms nq True cs obtain n where "parse_chars cs' (n # acc) = Some (str, rest)"
        by (auto split: option.splits)
      moreover have "length cs' \<le> length cs" using cs by simp
      ultimately show ?thesis by blast
    next
      case u: True
      with assms nq True cs obtain h1 h2 h3 h4 cs'' n where
        "cs' = h1 # h2 # h3 # h4 # cs''" "parse_chars cs'' (n # acc) = Some (str, rest)"
        by (auto split: list.splits option.splits)
      moreover from this cs have "length cs'' \<le> length cs" by simp
      ultimately show ?thesis by blast
    qed
  qed
qed

lemma parse_chars_shorter:
  "parse_chars cs acc = Some (str, rest) \<Longrightarrow> length rest < length cs"
proof (induction cs arbitrary: acc rule: length_induct)
  case (1 cs)
  show ?case
  proof (cases cs)
    case Nil
    with "1.prems" show ?thesis by simp
  next
    case (Cons c cs')
    with "1.prems" parse_chars_step [of c cs' acc str rest]
    consider "rest = cs'" | r acc' where "parse_chars r acc' = Some (str, rest)" "length r \<le> length cs'"
      by blast
    then show ?thesis
    proof cases
      case 1
      with Cons show ?thesis by simp
    next
      case 2
      with "1.IH" Cons have "length rest < length r" by (auto simp: less_Suc_eq_le)
      with 2 Cons show ?thesis by simp
    qed
  qed
qed

lemma parse_int_part_shorter: "parse_int_part s = Some (ds, r) \<Longrightarrow> length r < length s"
  using length_dropWhile_le [of is_digit "tl s"]
  by (cases s) (auto simp: parse_int_part_def split: if_splits)

lemma parse_frac_shorter: "parse_frac s = Some (ds, r) \<Longrightarrow> length r \<le> length s"
  using length_dropWhile_le [of is_digit "tl s"]
  by (cases s) (auto simp: parse_frac_def split: if_splits)

lemma parse_exp_shorter: "parse_exp s = Some (e, r) \<Longrightarrow> length r \<le> length s"
proof (cases s)
  case Nil
  assume "parse_exp s = Some (e, r)"
  with Nil show ?thesis by (simp add: parse_exp_def)
next
  case (Cons c cs)
  assume a: "parse_exp s = Some (e, r)"
  have "length (dropWhile is_digit cs) \<le> length cs" by (rule length_dropWhile_le)
  moreover have "length (dropWhile is_digit (tl cs)) \<le> length cs"
    using length_dropWhile_le [of is_digit "tl cs"] by simp
  ultimately show ?thesis
    using a Cons by (auto simp: parse_exp_def Let_def split: if_splits)
qed

lemma parse_number_shorter:
  assumes "parse_number s = Some (n, rest)"
  shows "length rest < length s"
proof -
  let ?neg = "s \<noteq> [] \<and> hd s = CHR ''-''"
  let ?s0 = "if ?neg then tl s else s"
  from assms obtain ids s1 fds s2 e where
    i: "parse_int_part ?s0 = Some (ids, s1)" and f: "parse_frac s1 = Some (fds, s2)"
    and x: "parse_exp s2 = Some (e, rest)"
    by (auto simp: parse_number_def Let_def split: option.splits)
  have "length ?s0 \<le> length s" by simp
  with parse_int_part_shorter [OF i] parse_frac_shorter [OF f] parse_exp_shorter [OF x]
  show ?thesis by linarith
qed

lemma parse_shorter:
  "(\<forall>v rest. parse_value s = Some (v, rest) \<longrightarrow> length rest < length s)"
  "(\<forall>vs rest. parse_elements s' = Some (vs, rest) \<longrightarrow> length rest < length s')"
  "(\<forall>ps rest. parse_members s'' = Some (ps, rest) \<longrightarrow> length rest < length s'')"
proof (induction s and s' and s'' rule: parse_value_parse_elements_parse_members.induct)
  case (1 s)
  show ?case
  proof (intro allI impI)
    fix v rest
    assume a: "parse_value s = Some (v, rest)"
    then obtain c cs where sk: "skip_ws s = c # cs"
      by (cases "skip_ws s") (simp_all add: parse_value.simps [of s])
    note len = skip_ws_Cons_length [OF sk]
    consider (obj) "c = CHR ''{''" | (arr) "c \<noteq> CHR ''{''" "c = CHR ''[''"
      | (str) "c \<noteq> CHR ''{''" "c \<noteq> CHR ''[''" "c = CHR 0x22"
      | (num) "c \<noteq> CHR ''{''" "c \<noteq> CHR ''[''" "c \<noteq> CHR 0x22" "c = CHR ''-'' \<or> is_digit c"
      | (lit) "c \<noteq> CHR ''{''" "c \<noteq> CHR ''[''" "c \<noteq> CHR 0x22" "\<not> (c = CHR ''-'' \<or> is_digit c)"
      by blast
    then show "length rest < length s"
    proof cases
      case obj
      show ?thesis
      proof (cases "skip_ws cs")
        case Nil
        with a sk obj show ?thesis by (simp add: parse_value.simps [of s])
      next
        case (Cons d ds)
        show ?thesis
        proof (cases "d = CHR ''}''")
          case True
          with a sk obj Cons have "rest = ds" by (simp add: parse_value.simps [of s])
          with skip_ws_Cons_length [OF Cons] len show ?thesis by simp
        next
          case False
          with a sk obj Cons obtain ps where "parse_members cs = Some (ps, rest)"
            by (auto simp: parse_value.simps [of s] split: option.splits)
          with "1.IH"(1) [OF sk obj Cons False] len show ?thesis by auto
        qed
      qed
    next
      case arr
      show ?thesis
      proof (cases "skip_ws cs")
        case Nil
        with a sk arr show ?thesis by (simp add: parse_value.simps [of s])
      next
        case (Cons d ds)
        show ?thesis
        proof (cases "d = CHR '']''")
          case True
          with a sk arr Cons have "rest = ds" by (simp add: parse_value.simps [of s])
          with skip_ws_Cons_length [OF Cons] len show ?thesis by simp
        next
          case False
          with a sk arr Cons obtain vs where "parse_elements cs = Some (vs, rest)"
            by (auto simp: parse_value.simps [of s] split: option.splits)
          with "1.IH"(2) [OF sk arr Cons False] len show ?thesis by auto
        qed
      qed
    next
      case str
      with a sk obtain st where "parse_chars cs [] = Some (st, rest)"
        by (auto simp: parse_value.simps [of s] split: option.splits)
      from parse_chars_shorter [OF this] len show ?thesis by simp
    next
      case num
      with a sk obtain n where "parse_number (c # cs) = Some (n, rest)"
        by (auto simp: parse_value.simps [of s] split: option.splits)
      from parse_number_shorter [OF this] len show ?thesis by simp
    next
      case lit
      with a sk have "parse_literal (c # cs) = Some (v, rest)"
        by (simp add: parse_value.simps [of s])
      then have "rest = drop 4 (c # cs) \<or> rest = drop 5 (c # cs)"
        unfolding parse_literal_def by (metis option.distinct(1) option.inject prod.inject)
      with len show ?thesis by auto
    qed
  qed
next
  case (2 s)
  show ?case
  proof (intro allI impI)
    fix vs rest
    assume a: "parse_elements s = Some (vs, rest)"
    then obtain v r where pv: "parse_value s = Some (v, r)"
      by (auto simp: parse_elements.simps [of s] split: option.splits)
    with "2.IH"(1) have lr: "length r < length s" by simp
    from a pv obtain c cs where sk: "skip_ws r = c # cs"
      by (cases "skip_ws r") (auto simp: parse_elements.simps [of s])
    note len = skip_ws_Cons_length [OF sk]
    show "length rest < length s"
    proof (cases "c = CHR '']''")
      case True
      with a pv sk have "rest = cs" by (simp add: parse_elements.simps [of s])
      with len lr show ?thesis by simp
    next
      case False
      with a pv sk have g: "c = CHR '','' \<and> length cs < length s"
        by (auto simp: parse_elements.simps [of s] split: if_splits)
      with a pv sk False obtain vs' where "parse_elements cs = Some (vs', rest)"
        by (auto simp: parse_elements.simps [of s] split: option.splits)
      with "2.IH"(2) [OF pv refl sk False g] g show ?thesis by auto
    qed
  qed
next
  case (3 s)
  show ?case
  proof (intro allI impI)
    fix ps rest
    assume a: "parse_members s = Some (ps, rest)"
    then obtain q cs where sk: "skip_ws s = q # cs"
      by (cases "skip_ws s") (simp_all add: parse_members.simps [of s])
    with a have q: "\<not> q \<noteq> CHR 0x22"
      by (auto simp: parse_members.simps [of s] split: if_splits)
    with a sk obtain key r1 where pc: "parse_chars cs [] = Some (key, r1)"
      by (auto simp: parse_members.simps [of s] split: option.splits)
    with a sk q obtain colon r2 where sk1: "skip_ws r1 = colon # r2"
      by (cases "skip_ws r1") (auto simp: parse_members.simps [of s])
    with a sk q pc have g: "colon = CHR '':'' \<and> length r2 < length s"
      by (auto simp: parse_members.simps [of s] split: if_splits)
    with a sk q pc sk1 obtain v r3 where pv: "parse_value r2 = Some (v, r3)"
      by (auto simp: parse_members.simps [of s] split: option.splits)
    with "3.IH"(1) [OF sk q pc refl sk1 g] have l3: "length r3 < length r2" by simp
    from a sk q pc sk1 g pv obtain c r4 where sk3: "skip_ws r3 = c # r4"
      by (cases "skip_ws r3") (auto simp: parse_members.simps [of s])
    note len = skip_ws_Cons_length [OF sk3]
    show "length rest < length s"
    proof (cases "c = CHR ''}''")
      case True
      with a sk q pc sk1 g pv sk3 have "rest = r4" by (simp add: parse_members.simps [of s])
      with len l3 g show ?thesis by simp
    next
      case False
      with a sk q pc sk1 g pv sk3 have g': "c = CHR '','' \<and> length r4 < length s"
        by (auto simp: parse_members.simps [of s] split: if_splits)
      with a sk q pc sk1 g pv sk3 False obtain ps' where "parse_members r4 = Some (ps', rest)"
        by (auto simp: parse_members.simps [of s] split: option.splits)
      with "3.IH"(2) [OF sk q pc refl sk1 g pv refl sk3 False g'] g' show ?thesis by auto
    qed
  qed
qed

lemma parse_elements_unguarded:
  "parse_elements s =
     (case parse_value s of
        None \<Rightarrow> None
      | Some (v, rest) \<Rightarrow>
          (case skip_ws rest of
             [] \<Rightarrow> None
           | c # cs \<Rightarrow>
               if c = CHR '']'' then Some ([v], cs)
               else if c = CHR '','' then
                 (case parse_elements cs of
                    None \<Rightarrow> None
                  | Some (vs, rest') \<Rightarrow> Some (v # vs, rest'))
               else None))"
proof (cases "parse_value s")
  case None
  then show ?thesis by (simp add: parse_elements.simps [of s])
next
  case (Some p)
  obtain v rest where p: "p = (v, rest)" by (cases p)
  with Some parse_shorter(1) [of s] have l: "length rest < length s" by simp
  show ?thesis
  proof (cases "skip_ws rest")
    case Nil
    with Some p show ?thesis by (simp add: parse_elements.simps [of s])
  next
    case (Cons c cs)
    with skip_ws_Cons_length [OF Cons] l have "length cs < length s" by simp
    with Some p Cons show ?thesis by (simp add: parse_elements.simps [of s])
  qed
qed

lemma parse_members_unguarded:
  "parse_members s =
     (case skip_ws s of
        [] \<Rightarrow> None
      | q # cs \<Rightarrow>
          if q \<noteq> CHR 0x22 then None
          else (case parse_chars cs [] of
              None \<Rightarrow> None
            | Some (key, r1) \<Rightarrow>
                (case skip_ws r1 of
                   [] \<Rightarrow> None
                 | colon # r2 \<Rightarrow>
                     if colon = CHR '':'' then
                       (case parse_value r2 of
                          None \<Rightarrow> None
                        | Some (v, r3) \<Rightarrow>
                            (case skip_ws r3 of
                               [] \<Rightarrow> None
                             | c # r4 \<Rightarrow>
                                 if c = CHR ''}'' then Some ([(key, v)], r4)
                                 else if c = CHR '','' then
                                   (case parse_members r4 of
                                      None \<Rightarrow> None
                                    | Some (ps, rest) \<Rightarrow> Some ((key, v) # ps, rest))
                                 else None))
                     else None)))"
proof (cases "skip_ws s")
  case Nil
  then show ?thesis by (simp add: parse_members.simps [of s])
next
  case (Cons q cs)
  note sk = this
  show ?thesis
  proof (cases "parse_chars cs []")
    case None
    with sk show ?thesis by (simp add: parse_members.simps [of s])
  next
    case (Some p)
    obtain key r1 where p: "p = (key, r1)" by (cases p)
    with Some parse_chars_shorter [of cs "[]" key r1] skip_ws_Cons_length [OF sk]
    have l1: "length r1 < length s" by simp
    show ?thesis
    proof (cases "skip_ws r1")
      case Nil
      with sk Some p show ?thesis by (simp add: parse_members.simps [of s])
    next
      case (Cons colon r2)
      note sk1 = this
      with skip_ws_Cons_length [OF sk1] l1 have l2: "length r2 < length s" by simp
      show ?thesis
      proof (cases "parse_value r2")
        case None
        with sk Some p sk1 show ?thesis by (simp add: parse_members.simps [of s])
      next
        case pv: (Some p')
        obtain v r3 where p': "p' = (v, r3)" by (cases p')
        with pv parse_shorter(1) [of r2] l2 have l3: "length r3 < length s" by simp
        show ?thesis
        proof (cases "skip_ws r3")
          case Nil
          with sk Some p sk1 pv p' l2 show ?thesis by (simp add: parse_members.simps [of s])
        next
          case (Cons c r4)
          with skip_ws_Cons_length [OF Cons] l3 have "length r4 < length s" by simp
          with sk Some p sk1 pv p' l2 Cons show ?thesis
            by (simp add: parse_members.simps [of s])
        qed
      qed
    qed
  qed
qed

lemma parse_comparison_consumes:
  "parse_comparison ts = Inr (n, rest) \<Longrightarrow> length rest < length ts"
  by (auto simp: parse_comparison_def split: list.splits if_splits option.splits)

lemma parse_consumes:
  "(\<forall>n rest. parse_expression ts = Inr (n, rest) \<longrightarrow> length rest < length ts)"
  "(\<forall>n rest. parse_chain l ts' = Inr (n, rest) \<longrightarrow> length rest \<le> length ts')"
  "(\<forall>n rest. parse_primary ts'' = Inr (n, rest) \<longrightarrow> length rest < length ts'')"
proof (induction ts and l ts' and ts'' rule: parse_expression_parse_chain_parse_primary.induct)
  case (1 ts)
  show ?case
  proof (intro allI impI)
    fix n rest
    assume a: "parse_expression ts = Inr (n, rest)"
    then obtain first r where p: "parse_primary ts = Inr (first, r)"
      by (auto simp: parse_expression.simps [of ts] split: sum.splits)
    with "1.IH"(1) have l: "length r < length ts" by simp
    with a p have "parse_chain first r = Inr (n, rest)"
      by (simp add: parse_expression.simps [of ts])
    with "1.IH"(2) [OF p refl l] l show "length rest < length ts" by auto
  qed
next
  case (2 l)
  then show ?case by simp
next
  case (3 l k t ts)
  show ?case
  proof (intro allI impI)
    fix n rest
    assume a: "parse_chain l ((k, t) # ts) = Inr (n, rest)"
    show "length rest \<le> length ((k, t) # ts)"
    proof (cases "k = LOGICAL_AND \<or> k = LOGICAL_OR")
      case False
      with a show ?thesis by auto
    next
      case True
      with a obtain r rest' where p: "parse_primary ts = Inr (r, rest')"
        by (auto split: sum.splits)
      with "3.IH"(1) [OF True] have le: "length rest' \<le> length ts" by auto
      with a True p have "parse_chain (Operator (if k = LOGICAL_AND then AND else OR) l r) rest'
          = Inr (n, rest)"
        by simp
      with "3.IH"(2) [OF True p refl le] le show ?thesis by auto
    qed
  qed
next
  case 4
  then show ?case by simp
next
  case (5 k t ts)
  show ?case
  proof (intro allI impI)
    fix n rest
    assume a: "parse_primary ((k, t) # ts) = Inr (n, rest)"
    show "length rest < length ((k, t) # ts)"
    proof (cases "k = LPAREN")
      case False
      with a parse_comparison_consumes [of "(k, t) # ts" n rest] show ?thesis by simp
    next
      case True
      with a obtain e r where p: "parse_expression ts = Inr (e, r)"
        by (auto split: sum.splits)
      with "5.IH" [OF True] have "length r < length ts" by simp
      with a True p show ?thesis by (auto split: list.splits if_splits)
    qed
  qed
qed

lemma parse_expression_unguarded:
  "parse_expression ts =
     (case parse_primary ts of
        Inl e \<Rightarrow> Inl e
      | Inr (first, rest) \<Rightarrow> parse_chain first rest)"
  using parse_consumes(3) [of ts]
  by (auto simp: parse_expression.simps [of ts] split: sum.splits)

lemma parse_chain_unguarded:
  "parse_chain l ((k, t) # ts) =
     (if k = LOGICAL_AND \<or> k = LOGICAL_OR then
        (case parse_primary ts of
           Inl e \<Rightarrow> Inl e
         | Inr (r, rest) \<Rightarrow>
             parse_chain (Operator (if k = LOGICAL_AND then AND else OR) l r) rest)
      else Inr (l, (k, t) # ts))"
  using parse_consumes(3) [of ts]
  by (auto split: sum.splits)

section \<open>Properties of the connectivity check and the listing\<close>

lemma checkBackendConnection_eq:
  "checkBackendConnection be st =
     (if health_ok be st
      then (True, st\<lparr>sent := sent st @ [GetHealth], connectionStatus := connected\<rparr>)
      else (False, cannot_connect (st\<lparr>sent := sent st @ [GetHealth]\<rparr>)))"
  by (simp add: checkBackendConnection_def fetch_def health_ok_def cannot_connect_def split: fetched.split)

lemma fetchRules_completes: "fst (fetchRules be st) = None"
  by (simp add: fetchRules_def try_finally_def try_catch_def split: prod.split option.split)

lemma health_ok_cong [simp]:
  "health_ok be (st\<lparr>error := e\<rparr>) = health_ok be st"
  "health_ok be (st\<lparr>isSubmitting := b\<rparr>) = health_ok be st"
  "health_ok be (st\<lparr>isLoading := b\<rparr>) = health_ok be st"
  by (simp_all add: health_ok_def)

lemma fetchRules_case:
  "(case fetchRules be st of (None, s) \<Rightarrow> f s | (Some err, s) \<Rightarrow> g err s) = f (snd (fetchRules be st))"
  using fetchRules_completes [of be st] by (cases "fetchRules be st") simp

lemma fetchRules_sent:
  "sent (snd (fetchRules be st)) = sent st @ [GetHealth]
   \<or> sent (snd (fetchRules be st)) = sent st @ [GetHealth, GetRules]"
  by (simp add: fetchRules_def try_finally_def try_catch_def fetchRules_try_def
      checkBackendConnection_eq fetch_def cannot_connect_def
      split: fetched.split sum.split)


lemma fetchRules_sent_prefix:
  "prefix xs (sent st) \<Longrightarrow> prefix xs (sent (snd (fetchRules be st)))"
  using fetchRules_sent [of be st] by (auto simp: prefix_def)

section \<open>The connectivity check gates creation and evaluation\<close>

text \<open>
  Claim C7. \<^verbatim>\<open>createRule\<close> and \<^verbatim>\<open>evaluateRule\<close> first perform the backend health check:
  the first request either sends is \<^verbatim>\<open>GET /health\<close>. Whenever that check fails (the request
  is rejected or its status is outside 200..299), the health check is the only request
  sent, the connection error is recorded, and the rules list and the stored evaluation
  results are unchanged.
\<close>

theorem connectivity_gate:
  "prefix (sent st @ [GetHealth]) (sent (snd (createRule be st)))
   \<and> prefix (sent st @ [GetHealth]) (sent (snd (evaluateRule be ruleId st)))
   \<and> (\<not> health_ok be st \<longrightarrow>
        sent (snd (createRule be st)) = sent st @ [GetHealth]
      \<and> error (snd (createRule be st)) =
          ''Cannot connect to backend server. Please ensure it is running at http://localhost:8000''
      \<and> rules (snd (createRule be st)) = rules st
      \<and> evaluationResults (snd (createRule be st)) = evaluationResults st
      \<and> sent (snd (evaluateRule be ruleId st)) = sent st @ [GetHealth]
      \<and> error (snd (evaluateRule be ruleId st)) =
          ''Cannot connect to backend server. Please ensure it is running at http://localhost:8000''
      \<and> rules (snd (evaluateRule be ruleId st)) = rules st
      \<and> evaluationResults (snd (evaluateRule be ruleId st)) = evaluationResults st)"
proof (intro conjI impI)
  show "prefix (sent st @ [GetHealth]) (sent (snd (createRule be st)))"
    by (auto simp: createRule_def try_finally_def try_catch_def createRule_try_def
        checkBackendConnection_eq fetch_def cannot_connect_def fetchRules_case
        intro!: fetchRules_sent_prefix
        split: fetched.split sum.split option.split)
next
  show "prefix (sent st @ [GetHealth]) (sent (snd (evaluateRule be ruleId st)))"
    by (auto simp: evaluateRule_def try_catch_def evaluateRule_try_def
        checkBackendConnection_eq fetch_def cannot_connect_def validateJsonData_def
        split: fetched.split sum.split option.split exn.split prod.split)
next
  assume h: "\<not> health_ok be st"
  then have c: "createRule be st = (None, cannot_connect (st\<lparr>isSubmitting := True, error := [],
      sent := sent st @ [GetHealth]\<rparr>)\<lparr>isSubmitting := False\<rparr>)"
    by (simp add: createRule_def try_finally_def try_catch_def createRule_try_def
        checkBackendConnection_eq)
  from h have e: "evaluateRule be ruleId st = (None, cannot_connect (st\<lparr>error := [],
      sent := sent st @ [GetHealth]\<rparr>))"
    by (simp add: evaluateRule_def try_catch_def evaluateRule_try_def checkBackendConnection_eq)
  show "sent (snd (createRule be st)) = sent st @ [GetHealth]"
    by (simp add: c cannot_connect_def)
  show "error (snd (createRule be st)) =
      ''Cannot connect to backend server. Please ensure it is running at http://localhost:8000''"
    by (simp add: c cannot_connect_def BACKEND_URL_def)
  show "rules (snd (createRule be st)) = rules st"
    by (simp add: c cannot_connect_def)
  show "evaluationResults (snd (createRule be st)) = evaluationResults st"
    by (simp add: c cannot_connect_def)
  show "sent (snd (evaluateRule be ruleId st)) = sent st @ [GetHealth]"
    by (simp add: e cannot_connect_def)
  show "error (snd (evaluateRule be ruleId st)) =
      ''Cannot connect to backend server. Please ensure it is running at http://localhost:8000''"
    by (simp add: e cannot_connect_def BACKEND_URL_def)
  show "rules (snd (evaluateRule be ruleId st)) = rules st"
    by (simp add: e cannot_connect_def)
  show "evaluationResults (snd (evaluateRule be ruleId st)) = evaluationResults st"
    by (simp add: e cannot_connect_def)
qed

theorem connectivity_gate_witness:
  "\<not> health_ok backend_down initialState
   \<and> sent (snd (createRule backend_down initialState)) = [GetHealth]
   \<and> error (snd (createRule backend_down initialState)) =
        ''Cannot connect to backend server. Please ensure it is running at http://localhost:8000''
   \<and> rules (snd (createRule backend_down initialState)) = []
   \<and> evaluationResults (snd (createRule backend_down initialState)) = evaluationResults initialState
   \<and> sent (snd (evaluateRule backend_down 1 initialState)) = [GetHealth]
   \<and> error (snd (evaluateRule backend_down 1 initialState)) =
        ''Cannot connect to backend server. Please ensure it is running at http://localhost:8000''
   \<and> rules (snd (evaluateRule backend_down 1 initialState)) = []
   \<and> evaluationResults (snd (evaluateRule backend_down 1 initialState)) = evaluationResults initialState"
proof -
  have h: "\<not> health_ok backend_down initialState"
    by (simp add: health_ok_def backend_down_def)
  have s: "sent initialState = []" "rules initialState = []"
    by (simp_all add: initialState_def)
  show ?thesis
    using connectivity_gate [of initialState backend_down 1] h s by simp
qed

section \<open>No handler throws, and none retries\<close>












lemma validateJsonData_sent: "sent (snd (validateJsonData s st)) = sent st"
  by (simp add: validateJsonData_def split: sum.split exn.split)

lemma validateJsonData_fst:
  "fst (validateJsonData s st) = (validateJsonData_try s = Inr True)"
  by (auto simp: validateJsonData_def validateJsonData_try_def split: sum.split exn.split)



lemma evaluateRule_try_sent:
  "sent (snd (evaluateRule_try be ruleId st)) =
     sent st @ GetHealth #
       (if health_ok be st \<and> validateJsonData_try (evaluationData st) = Inr True
        then (case JSON_parse (evaluationData st) of
                Inr v \<Rightarrow> [PostEvaluate ruleId v]
              | Inl err \<Rightarrow> [])
        else [])"
  by (simp add: evaluateRule_try_def checkBackendConnection_eq cannot_connect_def
        fetch_def validateJsonData_sent validateJsonData_fst case_prod_unfold
        split: fetched.split sum.split)

lemma evaluateRule_sent:
  "sent (snd (evaluateRule be ruleId st)) = sent (snd (evaluateRule_try be ruleId st))"
  by (simp add: evaluateRule_def try_catch_def split: prod.split option.split)













section \<open>Deleting a rule deselects it\<close>

text \<open>
  Claim C10. A deleted rule is never left selected: when the backend answers the
  \<^verbatim>\<open>DELETE\<close> request of \<^verbatim>\<open>deleteRule(ruleId)\<close> with a successful response, the handler
  completes, \<open>ruleId\<close> is absent from \<^verbatim>\<open>selectedRules\<close> afterwards, and every other rule
  id is selected afterwards exactly when it was selected before.
\<close>

theorem deleteRule_deselects:
  assumes "be (length (sent st)) (DeleteRule ruleId) = Resolved response" and "ok response"
  shows "fst (deleteRule be ruleId st) = None
    \<and> selectedRules (snd (deleteRule be ruleId st)) = filter (\<lambda>id. id \<noteq> ruleId) (selectedRules st)
    \<and> ruleId \<notin> set (selectedRules (snd (deleteRule be ruleId st)))
    \<and> (\<forall>id. id \<noteq> ruleId \<longrightarrow>
          (id \<in> set (selectedRules (snd (deleteRule be ruleId st))) \<longleftrightarrow> id \<in> set (selectedRules st)))"
proof -
  obtain st2 where fr: "fetchRules be (st\<lparr>sent := sent st @ [DeleteRule ruleId]\<rparr>) = (None, st2)"
    using fetchRules_completes [of be "st\<lparr>sent := sent st @ [DeleteRule ruleId]\<rparr>"]
    by (cases "fetchRules be (st\<lparr>sent := sent st @ [DeleteRule ruleId]\<rparr>)") simp
  have "deleteRule be ruleId st =
      (None, st2\<lparr>selectedRules := filter (\<lambda>id. id \<noteq> ruleId) (selectedRules st)\<rparr>)"
    using assms fr by (simp add: deleteRule_def deleteRule_try_def fetch_def try_catch_def)
  then show ?thesis by simp
qed

theorem deleteRule_deselects_witness:
  "backend_up emptyBody (length (sent (initialState\<lparr>selectedRules := [1, 2]\<rparr>))) (DeleteRule 1)
     = Resolved \<lparr>status = 200, json_body = Inr emptyBody\<rparr>
   \<and> ok \<lparr>status = 200, json_body = Inr emptyBody\<rparr>
   \<and> fst (deleteRule (backend_up emptyBody) 1 (initialState\<lparr>selectedRules := [1, 2]\<rparr>)) = None
   \<and> selectedRules (snd (deleteRule (backend_up emptyBody) 1 (initialState\<lparr>selectedRules := [1, 2]\<rparr>))) = [2]
   \<and> 1 \<notin> set (selectedRules (snd (deleteRule (backend_up emptyBody) 1 (initialState\<lparr>selectedRules := [1, 2]\<rparr>))))
   \<and> 2 \<in> set (selectedRules (snd (deleteRule (backend_up emptyBody) 1 (initialState\<lparr>selectedRules := [1, 2]\<rparr>))))"
proof -
  have h1: "backend_up emptyBody (length (sent (initialState\<lparr>selectedRules := [1, 2]\<rparr>))) (DeleteRule 1)
     = Resolved \<lparr>status = 200, json_body = Inr emptyBody\<rparr>"
    by (simp add: backend_up_def)
  have h2: "ok \<lparr>status = 200, json_body = Inr emptyBody\<rparr>"
    by (simp add: ok_def)
  show ?thesis
    using deleteRule_deselects [of "backend_up emptyBody" "initialState\<lparr>selectedRules := [1, 2]\<rparr>" 1
        "\<lparr>status = 200, json_body = Inr emptyBody\<rparr>"] h1 h2
    by (simp add: initialState_def)
qed

section \<open>What evaluation data is accepted\<close>

lemma typeof_object: "(typeof v \<noteq> ''object'' \<or> v = JNull) = (\<not> (isObject v \<or> isArray v))"
  by (cases v) simp_all

lemma dropWhile_all: "(\<forall>x\<in>set (dropWhile P s). P x) \<longleftrightarrow> (\<forall>x\<in>set s. P x)"
  by (induction s) auto

lemma trim_empty_iff: "trim s = [] \<longleftrightarrow> (\<forall>c\<in>set s. js_space c)"
  by (simp add: trim_def dropWhile_eq_Nil_conv dropWhile_all)

lemma skip_ws_subset: "skip_ws s = c # cs \<Longrightarrow> c \<in> set s"
  unfolding skip_ws_def by (metis list.set_intros(1) set_dropWhileD)

lemma parse_value_starts:
  assumes "parse_value s = Some (v, rest)"
  shows "\<exists>c\<in>set s. \<not> js_space c"
proof -
  from assms obtain c cs where sk: "skip_ws s = c # cs"
    by (cases "skip_ws s") (simp_all add: parse_value.simps [of s])
  with assms have "c = CHR ''{'' \<or> c = CHR ''['' \<or> c = CHR 0x22 \<or> c = CHR ''-'' \<or> is_digit c
      \<or> c = CHR ''t'' \<or> c = CHR ''f'' \<or> c = CHR ''n''"
    by (auto simp: parse_value.simps [of s] parse_literal_def split: if_splits)
  then have "\<not> js_space c"
    by (auto simp: js_space_def is_digit_def)
  with skip_ws_subset [OF sk] show ?thesis by blast
qed

lemma JSON_parse_nonblank: "JSON_parse s = Inr v \<Longrightarrow> trim s \<noteq> []"
  using parse_value_starts [of s] trim_empty_iff [of s]
  by (auto simp: JSON_parse_def split: option.splits if_splits)

lemma validateJsonData_try_eq:
  "(validateJsonData_try s = Inr True) =
     (trim s \<noteq> [] \<and> (\<exists>v. JSON_parse s = Inr v \<and> (isObject v \<or> isArray v)))"
proof (cases "JSON_parse s")
  case (Inl err)
  then show ?thesis by (simp add: validateJsonData_try_def)
next
  case (Inr v)
  then show ?thesis by (cases v) (simp_all add: validateJsonData_try_def)
qed

lemma validateJsonData_snd:
  "snd (validateJsonData s st) =
     (if validateJsonData_try s = Inr True then st
      else st\<lparr>error :=
        (if trim s = [] then ''Evaluation data cannot be empty''
         else if (\<forall>v. JSON_parse s \<noteq> Inr v) then ''Invalid JSON format. Please check your input.''
         else ''Data must be a JSON object or array'')\<rparr>)"
  by (auto simp: validateJsonData_def validateJsonData_try_def JSON_parse_def
      split: sum.splits exn.splits option.splits)

lemma evaluateRule_invalid:
  assumes "validateJsonData_try (evaluationData st) \<noteq> Inr True"
  shows "snd (evaluateRule be ruleId st) =
     (if health_ok be st
      then snd (validateJsonData (evaluationData st)
        (st\<lparr>error := [], sent := sent st @ [GetHealth], connectionStatus := connected\<rparr>))
      else cannot_connect (st\<lparr>error := [], sent := sent st @ [GetHealth]\<rparr>))"
  using assms
  by (simp add: evaluateRule_def try_catch_def evaluateRule_try_def checkBackendConnection_eq
      validateJsonData_fst case_prod_unfold)

text \<open>
  Claim C4, as amended. \<^verbatim>\<open>validateJsonData\<close> returns true exactly for the texts that are not
  blank and parse as JSON to an object or an array (a text that parses is never blank); it then
  leaves the state as it is, and \<^verbatim>\<open>evaluateRule\<close>, when the health check has succeeded, sends
  the evaluation request with the parsed value. For every other text \<^verbatim>\<open>validateJsonData\<close>
  returns false and records an error message, changing nothing else, and \<^verbatim>\<open>evaluateRule\<close>
  sends no request but the health check and leaves an error message.
\<close>

theorem validateJsonData_accepts:
  "fst (validateJsonData s st) =
     (trim s \<noteq> [] \<and> (\<exists>v. JSON_parse s = Inr v \<and> (isObject v \<or> isArray v)))
   \<and> fst (validateJsonData s st) = (\<exists>v. JSON_parse s = Inr v \<and> (isObject v \<or> isArray v))
   \<and> (fst (validateJsonData s st) \<longrightarrow> snd (validateJsonData s st) = st)
   \<and> (\<not> fst (validateJsonData s st) \<longrightarrow>
        snd (validateJsonData s st) = st\<lparr>error := error (snd (validateJsonData s st))\<rparr>
      \<and> error (snd (validateJsonData s st)) \<in>
          {''Evaluation data cannot be empty'', ''Invalid JSON format. Please check your input.'',
           ''Data must be a JSON object or array''})
   \<and> (health_ok be st \<and> fst (validateJsonData (evaluationData st) st) \<longrightarrow>
        (\<exists>v. JSON_parse (evaluationData st) = Inr v
           \<and> new_requests st (snd (evaluateRule be ruleId st)) = [GetHealth, PostEvaluate ruleId v]))
   \<and> (\<not> fst (validateJsonData (evaluationData st) st) \<longrightarrow>
        new_requests st (snd (evaluateRule be ruleId st)) = [GetHealth]
      \<and> error (snd (evaluateRule be ruleId st)) \<in>
          {''Cannot connect to backend server. Please ensure it is running at http://localhost:8000'',
           ''Evaluation data cannot be empty'', ''Invalid JSON format. Please check your input.'',
           ''Data must be a JSON object or array''})"
proof (intro conjI impI)
  show a: "fst (validateJsonData s st) =
     (trim s \<noteq> [] \<and> (\<exists>v. JSON_parse s = Inr v \<and> (isObject v \<or> isArray v)))"
    by (simp add: validateJsonData_fst validateJsonData_try_eq)
  show "fst (validateJsonData s st) = (\<exists>v. JSON_parse s = Inr v \<and> (isObject v \<or> isArray v))"
    unfolding a using JSON_parse_nonblank [of s] by blast
  show "snd (validateJsonData s st) = st" if "fst (validateJsonData s st)"
    using that by (simp add: validateJsonData_fst validateJsonData_snd)
  show "snd (validateJsonData s st) = st\<lparr>error := error (snd (validateJsonData s st))\<rparr>"
    if "\<not> fst (validateJsonData s st)"
    using that by (simp add: validateJsonData_fst validateJsonData_snd)
  show "error (snd (validateJsonData s st)) \<in>
          {''Evaluation data cannot be empty'', ''Invalid JSON format. Please check your input.'',
           ''Data must be a JSON object or array''}"
    if "\<not> fst (validateJsonData s st)"
    using that by (simp add: validateJsonData_fst validateJsonData_snd)
  show "\<exists>v. JSON_parse (evaluationData st) = Inr v
           \<and> new_requests st (snd (evaluateRule be ruleId st)) = [GetHealth, PostEvaluate ruleId v]"
    if "health_ok be st \<and> fst (validateJsonData (evaluationData st) st)"
    using that
    by (auto simp: validateJsonData_fst validateJsonData_try_eq new_requests_def
        evaluateRule_sent evaluateRule_try_sent)
  show "new_requests st (snd (evaluateRule be ruleId st)) = [GetHealth]"
    if "\<not> fst (validateJsonData (evaluationData st) st)"
    using that
    by (simp add: validateJsonData_fst new_requests_def evaluateRule_sent evaluateRule_try_sent)
  show "error (snd (evaluateRule be ruleId st)) \<in>
          {''Cannot connect to backend server. Please ensure it is running at http://localhost:8000'',
           ''Evaluation data cannot be empty'', ''Invalid JSON format. Please check your input.'',
           ''Data must be a JSON object or array''}"
    if "\<not> fst (validateJsonData (evaluationData st) st)"
    using that
    by (simp add: validateJsonData_fst evaluateRule_invalid validateJsonData_snd cannot_connect_def
        BACKEND_URL_def)
qed

lemma JSON_parse_empty_array: "JSON_parse ''[]'' = Inr (JArray [])"
  by code_simp

lemma JSON_parse_empty_object: "JSON_parse ''{}'' = Inr (JObject [])"
  by code_simp

lemma JSON_parse_five: "JSON_parse ''5'' = Inr (JNumber 5)"
  by code_simp

text \<open>
  Claim C4 as stated fails: the text \<^verbatim>\<open>[]\<close> parses to an array, which is no Record, and
  \<^verbatim>\<open>validateJsonData\<close> returns true for it and \<^verbatim>\<open>evaluateRule\<close> sends the evaluation
  request.
\<close>

theorem validateJsonData_accepts_array:
  "fst (validateJsonData ''[]'' initialState)
   \<and> JSON_parse ''[]'' = Inr (JArray [])
   \<and> \<not> is_Record (JArray [])
   \<and> new_requests initialState
        (snd (evaluateRule (backend_up emptyBody) 1 (initialState\<lparr>evaluationData := ''[]''\<rparr>))) =
      [GetHealth, PostEvaluate 1 (JArray [])]"
  by code_simp

lemma health_ok_up: "health_ok (backend_up emptyBody) (initialState\<lparr>evaluationData := s\<rparr>)"
  by (simp add: health_ok_def backend_up_def ok_def)

theorem validateJsonData_accepts_witness:
  "fst (validateJsonData ''{}'' (initialState\<lparr>evaluationData := ''{}''\<rparr>))
   \<and> snd (validateJsonData ''{}'' (initialState\<lparr>evaluationData := ''{}''\<rparr>))
        = initialState\<lparr>evaluationData := ''{}''\<rparr>
   \<and> health_ok (backend_up emptyBody) (initialState\<lparr>evaluationData := ''{}''\<rparr>)
   \<and> new_requests (initialState\<lparr>evaluationData := ''{}''\<rparr>)
        (snd (evaluateRule (backend_up emptyBody) 1 (initialState\<lparr>evaluationData := ''{}''\<rparr>)))
      = [GetHealth, PostEvaluate 1 (JObject [])]
   \<and> \<not> fst (validateJsonData ''5'' (initialState\<lparr>evaluationData := ''5''\<rparr>))
   \<and> error (snd (validateJsonData ''5'' (initialState\<lparr>evaluationData := ''5''\<rparr>)))
        = ''Data must be a JSON object or array''
   \<and> new_requests (initialState\<lparr>evaluationData := ''5''\<rparr>)
        (snd (evaluateRule (backend_up emptyBody) 1 (initialState\<lparr>evaluationData := ''5''\<rparr>)))
      = [GetHealth]
   \<and> error (snd (evaluateRule (backend_up emptyBody) 1 (initialState\<lparr>evaluationData := ''5''\<rparr>)))
      = ''Data must be a JSON object or array''"
proof -
  have e1: "error (snd (validateJsonData ''5'' (initialState\<lparr>evaluationData := ''5''\<rparr>)))
      = ''Data must be a JSON object or array''"
    by code_simp
  have e2: "error (snd (evaluateRule (backend_up emptyBody) 1 (initialState\<lparr>evaluationData := ''5''\<rparr>)))
      = ''Data must be a JSON object or array''"
    by code_simp
  have t: "trim ''{}'' \<noteq> []" "trim ''5'' \<noteq> []"
    by (simp_all add: trim_def js_space_def)
  have d: "evaluationData (initialState\<lparr>evaluationData := ''{}''\<rparr>) = ''{}''"
    "evaluationData (initialState\<lparr>evaluationData := ''5''\<rparr>) = ''5''"
    by simp_all
  show ?thesis
    using validateJsonData_accepts [of "''{}''" "initialState\<lparr>evaluationData := ''{}''\<rparr>"
        "backend_up emptyBody" 1]
      validateJsonData_accepts [of "''5''" "initialState\<lparr>evaluationData := ''5''\<rparr>"
        "backend_up emptyBody" 1]
      JSON_parse_empty_object JSON_parse_five health_ok_up e1 e2 t
    unfolding d by simp
qed

section \<open>What batch data is accepted\<close>

lemma evaluateBatch_array:
  assumes "JSON_parse (batchData st) = Inr (JArray items)"
  shows "sent (snd (evaluateBatch be st)) = sent st @ [PostEvaluateBatch (map rule_id (rules st)) items]"
proof -
  have "validateJsonData_try (batchData st) = Inr True"
    using assms JSON_parse_nonblank [OF assms] by (simp add: validateJsonData_try_eq)
  then show ?thesis
    using assms
    by (simp add: evaluateBatch_def try_catch_def evaluateBatch_try_def validateJsonData_fst
        validateJsonData_snd case_prod_unfold fetch_def
        split: fetched.split sum.split)
qed

lemma evaluateBatch_no_array:
  assumes "\<forall>items. JSON_parse (batchData st) \<noteq> Inr (JArray items)"
  shows "snd (evaluateBatch be st) =
     (if validateJsonData_try (batchData st) = Inr True
      then st\<lparr>error := ''Batch data must be an array of objects''\<rparr>
      else snd (validateJsonData (batchData st) st))"
proof (cases "validateJsonData_try (batchData st) = Inr True")
  case True
  then obtain v where "JSON_parse (batchData st) = Inr v" "isObject v \<or> isArray v"
    by (auto simp: validateJsonData_try_eq)
  with assms True show ?thesis
    by (cases v)
       (simp_all add: evaluateBatch_def try_catch_def evaluateBatch_try_def validateJsonData_fst
        validateJsonData_snd case_prod_unfold)
next
  case False
  then show ?thesis
    by (simp add: evaluateBatch_def try_catch_def evaluateBatch_try_def validateJsonData_fst
        case_prod_unfold)
qed

text \<open>
  Claim C5, as amended. When the batch data parses as JSON to an array, of Records or of any
  other values, \<^verbatim>\<open>evaluateBatch\<close> sends exactly one request, pairing the elements of that
  array with the ids of all listed rules. When it does not (it is blank, does not parse, or
  parses to something else), \<^verbatim>\<open>evaluateBatch\<close> sends no request and records an error.
\<close>

theorem evaluateBatch_requires_array:
  "(JSON_parse (batchData st) = Inr (JArray items) \<longrightarrow>
      new_requests st (snd (evaluateBatch be st)) =
        [PostEvaluateBatch (map rule_id (rules st)) items])
   \<and> ((\<forall>vs. JSON_parse (batchData st) \<noteq> Inr (JArray vs)) \<longrightarrow>
        new_requests st (snd (evaluateBatch be st)) = []
      \<and> error (snd (evaluateBatch be st)) \<in>
          {''Evaluation data cannot be empty'', ''Invalid JSON format. Please check your input.'',
           ''Data must be a JSON object or array'', ''Batch data must be an array of objects''})"
proof (intro conjI impI)
  show "new_requests st (snd (evaluateBatch be st)) =
        [PostEvaluateBatch (map rule_id (rules st)) items]"
    if "JSON_parse (batchData st) = Inr (JArray items)"
    using evaluateBatch_array [OF that, of be] by (simp add: new_requests_def)
  show "new_requests st (snd (evaluateBatch be st)) = []"
    if "\<forall>vs. JSON_parse (batchData st) \<noteq> Inr (JArray vs)"
    using evaluateBatch_no_array [OF that, of be]
    by (simp add: new_requests_def validateJsonData_sent)
  show "error (snd (evaluateBatch be st)) \<in>
          {''Evaluation data cannot be empty'', ''Invalid JSON format. Please check your input.'',
           ''Data must be a JSON object or array'', ''Batch data must be an array of objects''}"
    if "\<forall>vs. JSON_parse (batchData st) \<noteq> Inr (JArray vs)"
    using evaluateBatch_no_array [OF that, of be]
    by (simp add: validateJsonData_snd)
qed

lemma JSON_parse_number_array: "JSON_parse ''[1]'' = Inr (JArray [JNumber 1])"
  by code_simp

text \<open>
  Claim C5 as stated fails: \<^verbatim>\<open>[1]\<close> parses to an array whose element is no Record, and
  \<^verbatim>\<open>evaluateBatch\<close> sends the request with it.
\<close>

theorem evaluateBatch_sends_non_records:
  "JSON_parse ''[1]'' = Inr (JArray [JNumber 1])
   \<and> \<not> is_Record (JNumber 1)
   \<and> new_requests (initialState\<lparr>rules := listedRules, batchData := ''[1]''\<rparr>)
        (snd (evaluateBatch (backend_up emptyBody)
               (initialState\<lparr>rules := listedRules, batchData := ''[1]''\<rparr>))) =
      [PostEvaluateBatch [Some 7, Some 9] [JNumber 1]]"
  by code_simp

theorem evaluateBatch_requires_array_witness:
  "JSON_parse (batchData (initialState\<lparr>rules := listedRules, batchData := ''[1]''\<rparr>))
     = Inr (JArray [JNumber 1])
   \<and> new_requests (initialState\<lparr>rules := listedRules, batchData := ''[1]''\<rparr>)
        (snd (evaluateBatch (backend_up emptyBody)
               (initialState\<lparr>rules := listedRules, batchData := ''[1]''\<rparr>))) =
      [PostEvaluateBatch [Some 7, Some 9] [JNumber 1]]
   \<and> JSON_parse (batchData (initialState\<lparr>batchData := ''{}''\<rparr>)) = Inr (JObject [])
   \<and> new_requests (initialState\<lparr>batchData := ''{}''\<rparr>)
        (snd (evaluateBatch (backend_up emptyBody) (initialState\<lparr>batchData := ''{}''\<rparr>))) = []
   \<and> error (snd (evaluateBatch (backend_up emptyBody) (initialState\<lparr>batchData := ''{}''\<rparr>)))
        = ''Batch data must be an array of objects''"
proof -
  have e: "error (snd (evaluateBatch (backend_up emptyBody) (initialState\<lparr>batchData := ''{}''\<rparr>)))
        = ''Batch data must be an array of objects''"
    by code_simp
  have r: "map rule_id (rules (initialState\<lparr>rules := listedRules, batchData := ''[1]''\<rparr>))
      = [Some 7, Some 9]"
    by (simp add: listedRules_def)
  show ?thesis
    using evaluateBatch_requires_array [of "initialState\<lparr>rules := listedRules, batchData := ''[1]''\<rparr>"
        "[JNumber 1]" "backend_up emptyBody"]
      evaluateBatch_requires_array [of "initialState\<lparr>batchData := ''{}''\<rparr>" "[]" "backend_up emptyBody"]
      JSON_parse_number_array JSON_parse_empty_object e r
    by simp
qed

section \<open>Creation validation and the grammar\<close>

lemma js_includes_sublist: "js_includes s p = sublist p s"
  by (induction s) (simp_all add: sublist_Cons_right)

lemma parse_nonempty: "parse ts = Inr tree \<Longrightarrow> ts \<noteq> []"
  by (auto simp: parse_def parse_expression.simps [of "[]"])

lemma emit_Inr: "emit t r = Inr ts \<longleftrightarrow> (\<exists>ts'. r = Inr ts' \<and> ts = t # ts')"
  by (cases r) (auto simp: emit_def)

lemma tokenize_from_blank:
  "\<forall>c\<in>set s. js_space c \<Longrightarrow> tokenize_from pos s = Inr ts \<Longrightarrow> ts = []"
proof (induction s arbitrary: pos)
  case Nil
  then show ?case by simp
next
  case (Cons c cs)
  from Cons.prems(1) have sp: "js_space c" by simp
  then have no: "\<not> is_digit c" "\<not> is_letter c" "c \<noteq> CHR 0x27" "c \<noteq> CHR 0x22"
    "c \<noteq> CHR ''>''" "c \<noteq> CHR ''<''" "c \<noteq> CHR ''=''" "c \<noteq> CHR ''(''" "c \<noteq> CHR '')''"
    by (auto simp: js_space_def is_digit_def is_letter_def)
  show ?case
  proof (cases "is_space c")
    case True
    with Cons.prems have "tokenize_from (pos + 1) cs = Inr ts" by simp
    with Cons.IH [of "pos + 1"] Cons.prems(1) show ?thesis by simp
  next
    case False
    with no Cons.prems(2) show ?thesis by simp
  qed
qed

lemma Parse_nonblank: "Parse s = Inr tree \<Longrightarrow> trim s \<noteq> []"
proof
  assume p: "Parse s = Inr tree" and "trim s = []"
  then have b: "\<forall>c\<in>set s. js_space c" by (simp add: trim_empty_iff)
  from p obtain ts where t: "tokenize s = Inr ts" and q: "parse ts = Inr tree"
    by (auto simp: Parse_def split: sum.splits)
  from tokenize_from_blank [OF b] t have "ts = []" by (simp add: tokenize_def)
  with parse_nonempty [OF q] show False by simp
qed

text \<open>
  Claim C2, as amended. A rule string that conforms to the grammar, submitted with a name
  that is not blank, passes creation validation if and only if its text contains \<^verbatim>\<open>AND\<close>
  or \<^verbatim>\<open>OR\<close> in upper case; one that contains neither, as a single comparison such as
  \<^verbatim>\<open>age > 30\<close>, is rejected with the error
  \<^verbatim>\<open>Rule must contain at least one operator (AND/OR)\<close>.
\<close>

theorem validateRule_accepts_grammar:
  assumes "Parse (rule_string r) = Inr tree" and "trim (rule.name r) \<noteq> []"
  shows "(validateRule r = None) =
           (js_includes (rule_string r) ''AND'' \<or> js_includes (rule_string r) ''OR'')
    \<and> (\<not> js_includes (rule_string r) ''AND'' \<and> \<not> js_includes (rule_string r) ''OR'' \<longrightarrow>
          validateRule r = Some (Error ''Rule must contain at least one operator (AND/OR)''))"
  using Parse_nonblank [OF assms(1)] assms(2) by (simp add: validateRule_def)

text \<open>
  Claim C2 as stated fails: \<^verbatim>\<open>age > 30\<close> is a single comparison, the backend's grammar
  accepts it, and \<^verbatim>\<open>validateRule\<close> rejects it under a name that is not blank.
\<close>

theorem validateRule_rejects_comparison:
  "Parse (rule_string comparisonRule) = Inr (Operand ''age'' Gt (LNumber 30))
   \<and> trim (rule.name comparisonRule) = ''adults''
   \<and> validateRule comparisonRule = Some (Error ''Rule must contain at least one operator (AND/OR)'')"
  by code_simp

theorem validateRule_accepts_grammar_witness:
  "Parse (rule_string conjunctionRule) =
     Inr (Operator AND (Operand ''age'' Gt (LNumber 30)) (Operand ''salary'' Gt (LNumber 5)))
   \<and> trim (rule.name conjunctionRule) = ''seniors''
   \<and> js_includes (rule_string conjunctionRule) ''AND''
   \<and> validateRule conjunctionRule = None
   \<and> Parse (rule_string comparisonRule) = Inr (Operand ''age'' Gt (LNumber 30))
   \<and> trim (rule.name comparisonRule) = ''adults''
   \<and> \<not> js_includes (rule_string comparisonRule) ''AND''
   \<and> \<not> js_includes (rule_string comparisonRule) ''OR''
   \<and> validateRule comparisonRule = Some (Error ''Rule must contain at least one operator (AND/OR)'')"
proof -
  have p1: "Parse (rule_string conjunctionRule) =
     Inr (Operator AND (Operand ''age'' Gt (LNumber 30)) (Operand ''salary'' Gt (LNumber 5)))"
    by code_simp
  have n1: "trim (rule.name conjunctionRule) = ''seniors''" by code_simp
  have i1: "js_includes (rule_string conjunctionRule) ''AND''" by code_simp
  have p2: "Parse (rule_string comparisonRule) = Inr (Operand ''age'' Gt (LNumber 30))"
    by code_simp
  have n2: "trim (rule.name comparisonRule) = ''adults''" by code_simp
  have i2: "\<not> js_includes (rule_string comparisonRule) ''AND''"
    "\<not> js_includes (rule_string comparisonRule) ''OR''"
    by code_simp+
  show ?thesis
    using validateRule_accepts_grammar [OF p1] validateRule_accepts_grammar [OF p2] p1 n1 i1 p2 n2 i2
    by simp
qed

section \<open>Creation validation and the letter case of connectives\<close>

lemma word_token_text: "snd (word_token w) = w"
  by (simp add: word_token_def)

lemma letter_not_other:
  "is_letter c \<Longrightarrow> \<not> is_space c"
  "is_letter c \<Longrightarrow> \<not> is_digit c"
  "is_letter c \<Longrightarrow> c \<noteq> CHR 0x27 \<and> c \<noteq> CHR 0x22 \<and> c \<noteq> CHR ''.'' \<and> c \<noteq> CHR ''>''
     \<and> c \<noteq> CHR ''<'' \<and> c \<noteq> CHR ''='' \<and> c \<noteq> CHR ''('' \<and> c \<noteq> CHR '')''"
  by (auto simp: is_letter_def is_space_def is_digit_def)

lemma sublist_letters_skip:
  assumes "sublist w (u @ r)" "w \<noteq> []" "\<forall>x\<in>set w. is_letter x" "\<forall>x\<in>set u. \<not> is_letter x"
  shows "sublist w r"
proof -
  from assms(1) consider "sublist w u" | "sublist w r"
    | w1 w2 where "w = w1 @ w2" "suffix w1 u" "prefix w2 r"
    unfolding sublist_append by blast
  then show ?thesis
  proof cases
    case 1
    then have "set w \<subseteq> set u" by (auto simp: sublist_def)
    with assms(2-4) show ?thesis by (cases w) auto
  next
    case 2 then show ?thesis .
  next
    case 3
    have "set w1 \<subseteq> set u" using 3(2) by (auto simp: suffix_def)
    with assms(3,4) 3(1) have "w1 = []" by (cases w1) auto
    with 3 show ?thesis by auto
  qed
qed

lemma sublist_letters_token:
  assumes w: "sublist w (a @ u @ b @ r)" "w \<noteq> []" "\<forall>x\<in>set w. is_letter x"
    and ab: "\<forall>x\<in>set a \<union> set b. \<not> is_letter x"
    and edge: "b \<noteq> [] \<or> (\<forall>x\<in>set u. \<not> is_letter x) \<or> r = [] \<or> \<not> is_letter (hd r)"
  shows "sublist w u \<or> sublist w r"
proof -
  have 1: "sublist w (u @ (b @ r))"
    using sublist_letters_skip [OF w(1) w(2) w(3)] ab by simp
  then consider "sublist w u" | "sublist w (b @ r)"
    | w1 w2 where "w = w1 @ w2" "suffix w1 u" "prefix w2 (b @ r)" "w1 \<noteq> []" "w2 \<noteq> []"
    using sublist_append [of w u "b @ r"]
    by (metis append_Nil append_Nil2 prefix_imp_sublist suffix_imp_sublist)
  then show ?thesis
  proof cases
    case 1 then show ?thesis by simp
  next
    case 2
    then have "sublist w r" using sublist_letters_skip [of w b r] w ab by simp
    then show ?thesis by simp
  next
    case 3
    have h: "is_letter (hd w2)" using 3(1,5) w(3) by (cases w2) auto
    have hd: "hd w2 = hd (b @ r)" "b @ r \<noteq> []" using 3(3,5) by (auto simp: prefix_def)
    have l: "is_letter (last w1)" using 3(1,4) w(3) by auto
    have "last w1 \<in> set u" using 3(2,4) by (auto simp: suffix_def)
    with l have u: "\<not> (\<forall>x\<in>set u. \<not> is_letter x)" by blast
    have b: "b = []"
    proof (rule ccontr)
      assume "b \<noteq> []"
      then have "hd (b @ r) \<in> set b" by simp
      with h hd ab show False by auto
    qed
    with h hd have "r \<noteq> []" "is_letter (hd r)" by auto
    with edge u b show ?thesis by simp
  qed
qed

lemma token_splitI:
  "ts = t # ts' \<Longrightarrow> tokenize_from pos' r = Inr ts' \<Longrightarrow> s = a @ snd t @ b @ r
     \<Longrightarrow> \<forall>x\<in>set a \<union> set b. \<not> is_letter x
     \<Longrightarrow> length r < length s
     \<Longrightarrow> b \<noteq> [] \<or> (\<forall>x\<in>set (snd t). \<not> is_letter x) \<or> r = [] \<or> \<not> is_letter (hd r)
     \<Longrightarrow> \<exists>t ts' pos' a b r. ts = t # ts' \<and> tokenize_from pos' r = Inr ts' \<and> s = a @ snd t @ b @ r
          \<and> (\<forall>x\<in>set a \<union> set b. \<not> is_letter x) \<and> length r < length s
          \<and> (b \<noteq> [] \<or> (\<forall>x\<in>set (snd t). \<not> is_letter x) \<or> r = [] \<or> \<not> is_letter (hd r))"
  by blast

lemma digits_no_letter: "\<forall>x\<in>set (takeWhile is_digit xs). \<not> is_letter x"
  by (auto dest!: set_takeWhileD letter_not_other(2))

lemma tokenize_from_split:
  assumes "tokenize_from pos (c # cs) = Inr ts" "\<not> is_space c"
  shows "\<exists>t ts' pos' a b r. ts = t # ts' \<and> tokenize_from pos' r = Inr ts' \<and> c # cs = a @ snd t @ b @ r
          \<and> (\<forall>x\<in>set a \<union> set b. \<not> is_letter x) \<and> length r < length (c # cs)
          \<and> (b \<noteq> [] \<or> (\<forall>x\<in>set (snd t). \<not> is_letter x) \<or> r = [] \<or> \<not> is_letter (hd r))"
proof -
  consider (digit) "is_digit c"
    | (quote) "\<not> is_digit c" "c = CHR 0x27 \<or> c = CHR 0x22"
    | (letter) "\<not> is_digit c" "\<not> (c = CHR 0x27 \<or> c = CHR 0x22)" "is_letter c"
    | (other) "\<not> is_digit c" "\<not> (c = CHR 0x27 \<or> c = CHR 0x22)" "\<not> is_letter c"
    by blast
  then show ?thesis
  proof cases
    case digit
    let ?ds = "takeWhile is_digit (c # cs)" and ?r = "dropWhile is_digit (c # cs)"
    have s: "c # cs = ?ds @ ?r" by simp
    have ds: "?ds \<noteq> []" using digit by simp
    show ?thesis
    proof (cases "?r \<noteq> [] \<and> hd ?r = CHR ''.''")
      case True
      let ?fs = "takeWhile is_digit (tl ?r)" and ?r' = "dropWhile is_digit (tl ?r)"
      from True have r: "?r = CHR ''.'' # tl ?r" by (cases ?r) auto
      have "tl ?r = ?fs @ ?r'" by simp
      with r have "?r = ''.'' @ ?fs @ ?r'" by simp
      with s have s': "c # cs = [] @ (?ds @ ''.'' @ ?fs) @ [] @ ?r'"
        by (metis append_Nil append_assoc)
      from assms True digit obtain ts' where
        f: "ts = (NUMBER, ?ds @ ''.'' @ ?fs) # ts'"
        "tokenize_from (pos + length ?ds + 1 + length ?fs) ?r' = Inr ts'"
        by (auto simp: Let_def emit_Inr simp del: takeWhile.simps dropWhile.simps split: if_splits)
      have "length (c # cs) = length ([] @ (?ds @ ''.'' @ ?fs) @ [] @ ?r')"
        using s' by (rule arg_cong)
      then have len: "length ?r' < length (c # cs)"
        by (simp only: length_append list.size; simp)
      have nl: "\<forall>x\<in>set (?ds @ ''.'' @ ?fs). \<not> is_letter x"
        using digits_no_letter [of "c # cs"] digits_no_letter [of "tl ?r"]
        by (auto simp: is_letter_def simp del: takeWhile.simps dropWhile.simps)
      show ?thesis
        by (rule token_splitI [OF f(1) f(2) _ _ len, where a = "[]" and b = "[]"])
           (use s' nl in \<open>simp_all del: takeWhile.simps dropWhile.simps\<close>)
    next
      case False
      from assms False digit obtain ts' where
        f: "ts = (NUMBER, ?ds) # ts'" "tokenize_from (pos + length ?ds) ?r = Inr ts'"
        by (auto simp: Let_def emit_Inr simp del: takeWhile.simps dropWhile.simps split: if_splits)
      have len: "length ?r < length (c # cs)" using digit by (simp add: le_imp_less_Suc length_dropWhile_le)
      have nl: "\<forall>x\<in>set ?ds. \<not> is_letter x" by (rule digits_no_letter)
      show ?thesis
        by (rule token_splitI [OF f(1) f(2) _ _ len, where a = "[]" and b = "[]"])
           (use s nl in \<open>simp_all del: takeWhile.simps dropWhile.simps\<close>)
    qed
  next
    case quote
    let ?content = "takeWhile (\<lambda>d. d \<noteq> c) cs" and ?r = "dropWhile (\<lambda>d. d \<noteq> c) cs"
    from assms quote have r: "?r \<noteq> []" by (auto simp: Let_def split: if_splits)
    then have "hd ?r = c" using hd_dropWhile [of "\<lambda>d. d \<noteq> c" cs] by simp
    with r have r': "?r = c # tl ?r" by (cases ?r) auto
    have "cs = ?content @ ?r" by simp
    with r' have s: "c # cs = [c] @ ?content @ [c] @ tl ?r" by (metis append_Cons append_Nil)
    from assms quote r obtain ts' where
      f: "ts = (STRING, ?content) # ts'" "tokenize_from (pos + length ?content + 2) (tl ?r) = Inr ts'"
      by (auto simp: Let_def emit_Inr split: if_splits)
    have "length (c # cs) = length ([c] @ ?content @ [c] @ tl ?r)"
      using s by (rule arg_cong)
    then have len: "length (tl ?r) < length (c # cs)"
      by (simp only: length_append list.size; simp)
    have q: "\<not> is_letter c" using quote by (auto simp: is_letter_def)
    show ?thesis
      by (rule token_splitI [OF f(1) f(2) _ _ len, where a = "[c]" and b = "[c]"])
         (use s q in simp_all)
  next
    case letter
    let ?w = "takeWhile is_letter (c # cs)" and ?r = "dropWhile is_letter cs"
    have s: "c # cs = [] @ ?w @ [] @ ?r" using letter by simp
    from assms letter obtain ts' where
      f: "ts = word_token ?w # ts'" "tokenize_from (pos + length ?w) ?r = Inr ts'"
      by (auto simp: Let_def emit_Inr split: if_splits)
    have len: "length ?r < length (c # cs)" by (simp add: le_imp_less_Suc length_dropWhile_le)
    have e: "?r = [] \<or> \<not> is_letter (hd ?r)" using hd_dropWhile [of is_letter cs] by blast
    show ?thesis
      by (rule token_splitI [OF f(1) f(2) _ _ len, where a = "[]" and b = "[]"])
         (use s e letter in \<open>simp_all add: word_token_text\<close>)
  next
    case other
    consider (two) "c = CHR ''>'' \<or> c = CHR ''<'' \<or> c = CHR ''=''" "cs \<noteq> [] \<and> hd cs = CHR ''=''"
      | (one) "c = CHR ''>'' \<or> c = CHR ''<'' \<or> c = CHR ''=''" "\<not> (cs \<noteq> [] \<and> hd cs = CHR ''='')"
      | (paren) "\<not> (c = CHR ''>'' \<or> c = CHR ''<'' \<or> c = CHR ''='')"
      by blast
    then show ?thesis
    proof cases
      case two
      with assms other obtain ts' where
        f: "ts = (COMPARATOR, [c, CHR ''='']) # ts'" "tokenize_from (pos + 2) (tl cs) = Inr ts'"
        by (auto simp: emit_Inr)
      from two have s: "c # cs = [] @ [c, CHR ''=''] @ [] @ tl cs" by (cases cs) auto
      have len: "length (tl cs) < length (c # cs)" by simp
      show ?thesis
        by (rule token_splitI [OF f(1) f(2) _ _ len, where a = "[]" and b = "[]"])
           (use s other in \<open>simp_all add: is_letter_def\<close>)
    next
      case one
      with assms other obtain ts' where
        f: "ts = (COMPARATOR, [c]) # ts'" "tokenize_from (pos + 1) cs = Inr ts'"
        by (auto simp: emit_Inr)
      have len: "length cs < length (c # cs)" by simp
      show ?thesis
        by (rule token_splitI [OF f(1) f(2) _ _ len, where a = "[]" and b = "[]"])
           (use other in simp_all)
    next
      case paren
      with assms other obtain k ts' where
        f: "ts = (k, [c]) # ts'" "tokenize_from (pos + 1) cs = Inr ts'"
        by (auto simp: emit_Inr split: if_splits)
      have len: "length cs < length (c # cs)" by simp
      show ?thesis
        by (rule token_splitI [OF f(1) f(2) _ _ len, where a = "[]" and b = "[]"])
           (use other in simp_all)
    qed
  qed
qed

lemma token_text_sublist:
  "tokenize_from pos s = Inr ts \<Longrightarrow> (k, w) \<in> set ts \<Longrightarrow> sublist w s"
proof (induction s arbitrary: pos ts rule: length_induct)
  case (1 s)
  show ?case
  proof (cases s)
    case Nil
    with "1.prems" show ?thesis by simp
  next
    case (Cons c cs)
    show ?thesis
    proof (cases "is_space c")
      case True
      with "1.prems" Cons have "tokenize_from (pos + 1) cs = Inr ts" by simp
      with "1.IH" "1.prems" Cons have "sublist w cs" by auto
      then show ?thesis using Cons by (simp add: sublist_Cons_right)
    next
      case False
      have tk: "tokenize_from pos (c # cs) = Inr ts" using "1.prems"(1) unfolding Cons .
      from tokenize_from_split [OF tk False]
      obtain t ts' pos' a b r where f: "ts = t # ts'" "tokenize_from pos' r = Inr ts'"
        "s = a @ snd t @ b @ r" "length r < length s"
        unfolding Cons by blast
      show ?thesis
      proof (cases "(k, w) = t")
        case True
        then have "w = snd t" by auto
        with f(3) show ?thesis by (metis sublist_appendI)
      next
        case False
        with "1.prems"(2) f(1) have "(k, w) \<in> set ts'" by auto
        with "1.IH" f(2,4) have "sublist w r" by blast
        moreover have "sublist r s" unfolding f(3)
          by (metis append_assoc sublist_append_leftI)
        ultimately show ?thesis by (meson sublist_order.order.trans)
      qed
    qed
  qed
qed

lemma letters_in_token:
  "tokenize_from pos s = Inr ts \<Longrightarrow> sublist w s \<Longrightarrow> w \<noteq> [] \<Longrightarrow> \<forall>x\<in>set w. is_letter x
     \<Longrightarrow> \<exists>t\<in>set ts. sublist w (snd t)"
proof (induction s arbitrary: pos ts rule: length_induct)
  case (1 s)
  show ?case
  proof (cases s)
    case Nil
    with "1.prems" show ?thesis by simp
  next
    case (Cons c cs)
    show ?thesis
    proof (cases "is_space c")
      case True
      with "1.prems" Cons have t: "tokenize_from (pos + 1) cs = Inr ts" by simp
      have "sublist w ([c] @ cs)" using "1.prems"(2) Cons by simp
      then have "sublist w cs"
        using sublist_letters_skip [of w "[c]" cs] "1.prems"(3,4) True letter_not_other(1) by auto
      with "1.IH" t "1.prems"(3,4) Cons show ?thesis by auto
    next
      case False
      have tk: "tokenize_from pos (c # cs) = Inr ts" using "1.prems"(1) unfolding Cons .
      from tokenize_from_split [OF tk False]
      obtain t ts' pos' a b r where f: "ts = t # ts'" "tokenize_from pos' r = Inr ts'"
        "s = a @ snd t @ b @ r" "\<forall>x\<in>set a \<union> set b. \<not> is_letter x" "length r < length s"
        "b \<noteq> [] \<or> (\<forall>x\<in>set (snd t). \<not> is_letter x) \<or> r = [] \<or> \<not> is_letter (hd r)"
        unfolding Cons by blast
      from sublist_letters_token [OF _ "1.prems"(3,4) f(4) f(6)] "1.prems"(2) f(3)
      consider "sublist w (snd t)" | "sublist w r" by blast
      then show ?thesis
      proof cases
        case 1 then show ?thesis using f(1) by simp
      next
        case 2
        with "1.IH" f(2,5) "1.prems"(3,4) have "\<exists>t\<in>set ts'. sublist w (snd t)" by blast
        then show ?thesis using f(1) by auto
      qed
    qed
  qed
qed

lemma includes_token:
  assumes "tokenize s = Inr ts" "w = ''AND'' \<or> w = ''OR''"
  shows "js_includes s w = (\<exists>t\<in>set ts. js_includes (snd t) w)"
proof -
  have w: "w \<noteq> []" "\<forall>x\<in>set w. is_letter x"
    using assms(2) by (auto simp: is_letter_def)
  show ?thesis
  proof
    assume "js_includes s w"
    then show "\<exists>t\<in>set ts. js_includes (snd t) w"
      using letters_in_token [of 0 s ts w] assms(1) w by (simp add: js_includes_sublist tokenize_def)
  next
    assume "\<exists>t\<in>set ts. js_includes (snd t) w"
    then obtain k u where "(k, u) \<in> set ts" "sublist w u" by (force simp: js_includes_sublist)
    with token_text_sublist [of 0 s ts k u] assms(1) show "js_includes s w"
      unfolding js_includes_sublist tokenize_def by (meson sublist_order.order.trans)
  qed
qed

text \<open>
  Claim C3, as amended. Creation validation does not recognize connectives: it tests whether
  the rule string contains \<^verbatim>\<open>AND\<close> or \<^verbatim>\<open>OR\<close>, in upper case, as a substring. A rule
  string in which a connective is written \<^verbatim>\<open>AND\<close> or \<^verbatim>\<open>OR\<close> in upper case is not rejected
  for lacking an operator. A rule is rejected for lacking an operator exactly when its name
  and its expression are not blank and the expression contains neither \<^verbatim>\<open>AND\<close> nor
  \<^verbatim>\<open>OR\<close> in upper case. For a rule string that the tokenizer accepts, that is exactly when
  its name and its expression are not blank and no token's text contains \<^verbatim>\<open>AND\<close> or
  \<^verbatim>\<open>OR\<close> in upper case: \<^verbatim>\<open>age > 30 and salary > 5\<close> is rejected, and
  \<^verbatim>\<open>FLOOR > 2 and x > 3\<close> is not, for the \<^verbatim>\<open>OR\<close> in its field name.
\<close>

theorem validateRule_connectives_case_sensitive:
  "(tokenize (rule_string r) = Inr ts
      \<and> ((LOGICAL_AND, ''AND'') \<in> set ts \<or> (LOGICAL_OR, ''OR'') \<in> set ts)
      \<longrightarrow> validateRule r \<noteq> Some (Error ''Rule must contain at least one operator (AND/OR)''))
   \<and> ((validateRule r = Some (Error ''Rule must contain at least one operator (AND/OR)'')) =
        (trim (rule.name r) \<noteq> [] \<and> trim (rule_string r) \<noteq> []
         \<and> \<not> js_includes (rule_string r) ''AND'' \<and> \<not> js_includes (rule_string r) ''OR''))
   \<and> (tokenize (rule_string r) = Inr ts
      \<longrightarrow> (validateRule r = Some (Error ''Rule must contain at least one operator (AND/OR)'')) =
          (trim (rule.name r) \<noteq> [] \<and> trim (rule_string r) \<noteq> []
           \<and> (\<forall>t\<in>set ts. \<not> js_includes (snd t) ''AND'' \<and> \<not> js_includes (snd t) ''OR'')))"
proof (intro conjI impI)
  show eq: "(validateRule r = Some (Error ''Rule must contain at least one operator (AND/OR)'')) =
        (trim (rule.name r) \<noteq> [] \<and> trim (rule_string r) \<noteq> []
         \<and> \<not> js_includes (rule_string r) ''AND'' \<and> \<not> js_includes (rule_string r) ''OR'')"
    by (simp add: validateRule_def)
  {
    assume a: "tokenize (rule_string r) = Inr ts
        \<and> ((LOGICAL_AND, ''AND'') \<in> set ts \<or> (LOGICAL_OR, ''OR'') \<in> set ts)"
    then have "sublist ''AND'' (rule_string r) \<or> sublist ''OR'' (rule_string r)"
      using token_text_sublist [of 0 "rule_string r" ts LOGICAL_AND "''AND''"]
        token_text_sublist [of 0 "rule_string r" ts LOGICAL_OR "''OR''"]
      by (auto simp: tokenize_def)
    then show "validateRule r \<noteq> Some (Error ''Rule must contain at least one operator (AND/OR)'')"
      unfolding eq by (simp add: js_includes_sublist)
  }
  assume t: "tokenize (rule_string r) = Inr ts"
  show "(validateRule r = Some (Error ''Rule must contain at least one operator (AND/OR)'')) =
          (trim (rule.name r) \<noteq> [] \<and> trim (rule_string r) \<noteq> []
           \<and> (\<forall>t\<in>set ts. \<not> js_includes (snd t) ''AND'' \<and> \<not> js_includes (snd t) ''OR''))"
    unfolding eq includes_token [OF t, of "''AND''", simplified]
      includes_token [OF t, of "''OR''", simplified]
    by blast
qed

text \<open>
  Claim C3 as stated fails: in \<^verbatim>\<open>age > 30 and salary > 5\<close> the backend's tokenizer
  recognizes the connective \<^verbatim>\<open>and\<close>, and \<^verbatim>\<open>validateRule\<close> rejects the rule for lacking
  an operator.
\<close>

theorem validateRule_rejects_lowercase:
  "tokenize (rule_string lowercaseRule) =
     Inr [(IDENTIFIER, ''age''), (COMPARATOR, ''>''), (NUMBER, ''30''), (LOGICAL_AND, ''and''),
          (IDENTIFIER, ''salary''), (COMPARATOR, ''>''), (NUMBER, ''5'')]
   \<and> trim (rule.name lowercaseRule) = ''seniors''
   \<and> validateRule lowercaseRule = Some (Error ''Rule must contain at least one operator (AND/OR)'')"
  by code_simp

lemma rule_tokens:
  "tokenize (rule_string conjunctionRule) =
     Inr [(IDENTIFIER, ''age''), (COMPARATOR, ''>''), (NUMBER, ''30''), (LOGICAL_AND, ''AND''),
          (IDENTIFIER, ''salary''), (COMPARATOR, ''>''), (NUMBER, ''5'')]"
  "tokenize (rule_string lowercaseRule) =
     Inr [(IDENTIFIER, ''age''), (COMPARATOR, ''>''), (NUMBER, ''30''), (LOGICAL_AND, ''and''),
          (IDENTIFIER, ''salary''), (COMPARATOR, ''>''), (NUMBER, ''5'')]"
  "tokenize (rule_string floorRule) =
     Inr [(IDENTIFIER, ''FLOOR''), (COMPARATOR, ''>''), (NUMBER, ''2''), (LOGICAL_AND, ''and''),
          (IDENTIFIER, ''x''), (COMPARATOR, ''>''), (NUMBER, ''3'')]"
  by code_simp+

lemma rule_texts:
  "trim (rule.name lowercaseRule) \<noteq> []" "trim (rule_string lowercaseRule) \<noteq> []"
  "\<not> js_includes (rule_string lowercaseRule) ''AND''"
  "\<not> js_includes (rule_string lowercaseRule) ''OR''"
  "trim (rule.name floorRule) \<noteq> []" "trim (rule_string floorRule) \<noteq> []"
  "js_includes ''FLOOR'' ''OR''"
  "\<not> js_includes ''age'' ''AND''" "\<not> js_includes ''age'' ''OR''"
  "\<not> js_includes ''>'' ''AND''" "\<not> js_includes ''>'' ''OR''"
  "\<not> js_includes ''30'' ''AND''" "\<not> js_includes ''30'' ''OR''"
  "\<not> js_includes ''and'' ''AND''" "\<not> js_includes ''and'' ''OR''"
  "\<not> js_includes ''salary'' ''AND''" "\<not> js_includes ''salary'' ''OR''"
  "\<not> js_includes ''5'' ''AND''" "\<not> js_includes ''5'' ''OR''"
  by code_simp+

theorem validateRule_connectives_case_sensitive_witness:
  "tokenize (rule_string conjunctionRule) =
     Inr [(IDENTIFIER, ''age''), (COMPARATOR, ''>''), (NUMBER, ''30''), (LOGICAL_AND, ''AND''),
          (IDENTIFIER, ''salary''), (COMPARATOR, ''>''), (NUMBER, ''5'')]
   \<and> validateRule conjunctionRule \<noteq> Some (Error ''Rule must contain at least one operator (AND/OR)'')
   \<and> trim (rule.name lowercaseRule) \<noteq> []
   \<and> trim (rule_string lowercaseRule) \<noteq> []
   \<and> \<not> js_includes (rule_string lowercaseRule) ''AND''
   \<and> \<not> js_includes (rule_string lowercaseRule) ''OR''
   \<and> validateRule lowercaseRule = Some (Error ''Rule must contain at least one operator (AND/OR)'')
   \<and> tokenize (rule_string floorRule) =
     Inr [(IDENTIFIER, ''FLOOR''), (COMPARATOR, ''>''), (NUMBER, ''2''), (LOGICAL_AND, ''and''),
          (IDENTIFIER, ''x''), (COMPARATOR, ''>''), (NUMBER, ''3'')]
   \<and> js_includes ''FLOOR'' ''OR''
   \<and> validateRule floorRule \<noteq> Some (Error ''Rule must contain at least one operator (AND/OR)'')"
proof -
  note c = validateRule_connectives_case_sensitive [of conjunctionRule
        "[(IDENTIFIER, ''age''), (COMPARATOR, ''>''), (NUMBER, ''30''), (LOGICAL_AND, ''AND''),
          (IDENTIFIER, ''salary''), (COMPARATOR, ''>''), (NUMBER, ''5'')]"]
  note l = validateRule_connectives_case_sensitive [of lowercaseRule
        "[(IDENTIFIER, ''age''), (COMPARATOR, ''>''), (NUMBER, ''30''), (LOGICAL_AND, ''and''),
          (IDENTIFIER, ''salary''), (COMPARATOR, ''>''), (NUMBER, ''5'')]"]
  note f = validateRule_connectives_case_sensitive [of floorRule
        "[(IDENTIFIER, ''FLOOR''), (COMPARATOR, ''>''), (NUMBER, ''2''), (LOGICAL_AND, ''and''),
          (IDENTIFIER, ''x''), (COMPARATOR, ''>''), (NUMBER, ''3'')]"]
  have 1: "validateRule conjunctionRule \<noteq> Some (Error ''Rule must contain at least one operator (AND/OR)'')"
    using c rule_tokens(1) by simp
  have "(validateRule lowercaseRule = Some (Error ''Rule must contain at least one operator (AND/OR)'')) =
      (trim (rule.name lowercaseRule) \<noteq> [] \<and> trim (rule_string lowercaseRule) \<noteq> []
       \<and> (\<forall>t\<in>set [(IDENTIFIER, ''age''), (COMPARATOR, ''>''), (NUMBER, ''30''),
              (LOGICAL_AND, ''and''), (IDENTIFIER, ''salary''), (COMPARATOR, ''>''), (NUMBER, ''5'')].
             \<not> js_includes (snd t) ''AND'' \<and> \<not> js_includes (snd t) ''OR''))"
    using l rule_tokens(2) by blast
  then have 2: "validateRule lowercaseRule = Some (Error ''Rule must contain at least one operator (AND/OR)'')"
    using rule_texts by simp
  have "(validateRule floorRule = Some (Error ''Rule must contain at least one operator (AND/OR)'')) =
      (trim (rule.name floorRule) \<noteq> [] \<and> trim (rule_string floorRule) \<noteq> []
       \<and> (\<forall>t\<in>set [(IDENTIFIER, ''FLOOR''), (COMPARATOR, ''>''), (NUMBER, ''2''),
              (LOGICAL_AND, ''and''), (IDENTIFIER, ''x''), (COMPARATOR, ''>''), (NUMBER, ''3'')].
             \<not> js_includes (snd t) ''AND'' \<and> \<not> js_includes (snd t) ''OR''))"
    using f rule_tokens(3) by blast
  then have 3: "validateRule floorRule \<noteq> Some (Error ''Rule must contain at least one operator (AND/OR)'')"
    using rule_texts(7) by simp
  show ?thesis
    by (intro conjI rule_tokens(1) rule_tokens(3) rule_texts(1-4) rule_texts(7) 1 2 3)
qed

section \<open>Combining needs two rules\<close>

text \<open>
  Claim C1. Combining rules requires at least two inputs: the backend's \<^verbatim>\<open>combine\<close> fails
  with the validation error on no root and on one root (and gives a node on two or more);
  and in the client, while fewer than two rules are selected, the button
  \<^verbatim>\<open>Combine Selected Rules\<close> is disabled and a click on it changes nothing (with two or more
  selected it opens the dialog).
\<close>

theorem combine_requires_two:
  "(length roots < 2 \<longrightarrow> combine roots c = Inl Validation_Error)
   \<and> (2 \<le> length roots \<longrightarrow> (\<exists>tree. combine roots c = Inr tree))
   \<and> (length (selectedRules st) < 2 \<longrightarrow>
        combineSelectedDisabled st \<and> clickCombineSelected st = st)
   \<and> (2 \<le> length (selectedRules st) \<longrightarrow>
        \<not> combineSelectedDisabled st \<and> clickCombineSelected st = st\<lparr>showCombineDialog := True\<rparr>)"
  by (auto simp: combine_def combineSelectedDisabled_def clickCombineSelected_def
      split: list.splits)

theorem combine_requires_two_witness:
  "length [Operand ''age'' Gt (LNumber 30)] < 2
   \<and> combine [] AND = Inl Validation_Error
   \<and> combine [Operand ''age'' Gt (LNumber 30)] OR = Inl Validation_Error
   \<and> combine [Operand ''a'' Gt (LNumber 1), Operand ''b'' Lt (LNumber 2), Operand ''c'' Eq (LNumber 3)] OR
       = Inr (Operator OR (Operator OR (Operand ''a'' Gt (LNumber 1)) (Operand ''b'' Lt (LNumber 2)))
                (Operand ''c'' Eq (LNumber 3)))
   \<and> combineSelectedDisabled (initialState\<lparr>selectedRules := [7]\<rparr>)
   \<and> clickCombineSelected (initialState\<lparr>selectedRules := [7]\<rparr>) = initialState\<lparr>selectedRules := [7]\<rparr>
   \<and> \<not> showCombineDialog (clickCombineSelected (initialState\<lparr>selectedRules := [7]\<rparr>))
   \<and> \<not> combineSelectedDisabled (initialState\<lparr>selectedRules := [7, 9]\<rparr>)
   \<and> showCombineDialog (clickCombineSelected (initialState\<lparr>selectedRules := [7, 9]\<rparr>))"
proof -
  have c3: "combine [Operand ''a'' Gt (LNumber 1), Operand ''b'' Lt (LNumber 2), Operand ''c'' Eq (LNumber 3)] OR
       = Inr (Operator OR (Operator OR (Operand ''a'' Gt (LNumber 1)) (Operand ''b'' Lt (LNumber 2)))
                (Operand ''c'' Eq (LNumber 3)))"
    by (simp add: combine_def)
  have d: "\<not> showCombineDialog initialState" by (simp add: initialState_def)
  show ?thesis
    using combine_requires_two [of "[]" AND "initialState\<lparr>selectedRules := [7]\<rparr>"]
      combine_requires_two [of "[Operand ''age'' Gt (LNumber 30)]" OR
        "initialState\<lparr>selectedRules := [7, 9]\<rparr>"] c3 d
    by simp
qed

section \<open>The graph of an AST\<close>

lemma nodeId_of_child [simp]:
  "nodeId_of (Some (p @ ''-left'')) ty = p @ ''-left-'' @ ty"
  "nodeId_of (Some (p @ ''-right'')) ty = p @ ''-right-'' @ ty"
  by (simp_all add: nodeId_of_def)

lemma graph_ids_Node:
  "graph_ids (Node ty val l r) parentId (px, py) =
     nodeId_of parentId ty #
       (case l of None \<Rightarrow> []
        | Some lnode \<Rightarrow> graph_ids lnode (Some (nodeId_of parentId ty @ ''-left'')) (px - 100, py + 100))
       @ (case r of None \<Rightarrow> []
        | Some rnode \<Rightarrow> graph_ids rnode (Some (nodeId_of parentId ty @ ''-right'')) (px + 100, py + 100))"
  by (simp add: graph_ids_def Let_def split: option.split prod.split)

lemma graph_edges_Node:
  "snd (buildGraph (Node ty val l r) parentId (px, py)) =
     (case l of None \<Rightarrow> []
      | Some lnode \<Rightarrow>
          snd (buildGraph lnode (Some (nodeId_of parentId ty @ ''-left'')) (px - 100, py + 100)) @
          [\<lparr>edge_id = nodeId_of parentId ty @ ''-left'', source = nodeId_of parentId ty,
            target = nodeId_of parentId ty @ ''-left-'' @ ast_type lnode\<rparr>])
     @ (case r of None \<Rightarrow> []
      | Some rnode \<Rightarrow>
          snd (buildGraph rnode (Some (nodeId_of parentId ty @ ''-right'')) (px + 100, py + 100)) @
          [\<lparr>edge_id = nodeId_of parentId ty @ ''-right'', source = nodeId_of parentId ty,
            target = nodeId_of parentId ty @ ''-right-'' @ ast_type rnode\<rparr>])"
  by (simp add: Let_def split: option.split prod.split)

lemma length_graph_ids: "length (graph_ids t parentId pos) = ast_nodes t"
proof (induction t arbitrary: parentId pos)
  case (Node ty val l r)
  obtain px py where pos: "pos = (px, py)" by (cases pos)
  show ?case
    unfolding pos graph_ids_Node using Node.IH
    by (auto split: option.split)
qed

lemma graph_ids_head: "hd (graph_ids t parentId pos) = nodeId_of parentId (ast_type t)"
  by (cases t; cases pos) (simp add: graph_ids_Node)

lemma graph_ids_nonempty: "graph_ids t parentId pos \<noteq> []"
  by (cases t; cases pos) (simp add: graph_ids_Node)

lemma graph_ids_own: "nodeId_of parentId (ast_type t) \<in> set (graph_ids t parentId pos)"
  by (cases t; cases pos) (simp add: graph_ids_Node)

lemma graph_ids_prefix:
  "i \<in> set (graph_ids t parentId pos) \<Longrightarrow> prefix (nodeId_of parentId (ast_type t)) i"
proof (induction t arbitrary: parentId pos i)
  case (Node ty val l r)
  obtain px py where pos: "pos = (px, py)" by (cases pos)
  let ?n = "nodeId_of parentId ty"
  from Node.prems consider (self) "i = ?n"
    | (left) lnode where "l = Some lnode"
        "i \<in> set (graph_ids lnode (Some (?n @ ''-left'')) (px - 100, py + 100))"
    | (right) rnode where "r = Some rnode"
        "i \<in> set (graph_ids rnode (Some (?n @ ''-right'')) (px + 100, py + 100))"
    unfolding pos graph_ids_Node by (auto split: option.splits)
  then show ?case
  proof cases
    case self
    then show ?thesis by simp
  next
    case left
    with Node.IH(1) [OF _ left(2)] have "prefix (?n @ ''-left-'' @ ast_type lnode) i" by simp
    then show ?thesis by (auto simp: prefix_def)
  next
    case right
    with Node.IH(2) [OF _ right(2)] have "prefix (?n @ ''-right-'' @ ast_type rnode) i" by simp
    then show ?thesis by (auto simp: prefix_def)
  qed
qed

lemma distinct_graph_ids: "distinct (graph_ids t parentId pos)"
proof (induction t arbitrary: parentId pos)
  case (Node ty val l r)
  obtain px py where pos: "pos = (px, py)" by (cases pos)
  let ?n = "nodeId_of parentId ty"
  let ?L = "case l of None \<Rightarrow> []
        | Some lnode \<Rightarrow> graph_ids lnode (Some (?n @ ''-left'')) (px - 100, py + 100)"
  let ?R = "case r of None \<Rightarrow> []
        | Some rnode \<Rightarrow> graph_ids rnode (Some (?n @ ''-right'')) (px + 100, py + 100)"
  have L: "\<forall>i\<in>set ?L. prefix (?n @ ''-left-'') i"
    by (auto split: option.split dest!: graph_ids_prefix simp: prefix_def)
  have R: "\<forall>i\<in>set ?R. prefix (?n @ ''-right-'') i"
    by (auto split: option.split dest!: graph_ids_prefix simp: prefix_def)
  have dL: "distinct ?L" using Node.IH(1) by (auto split: option.split)
  have dR: "distinct ?R" using Node.IH(2) by (auto split: option.split)
  have nL: "?n \<notin> set ?L" using L by (auto simp: prefix_def)
  have nR: "?n \<notin> set ?R" using R by (auto simp: prefix_def)
  have LR: "set ?L \<inter> set ?R = {}" using L R by (auto simp: prefix_def)
  show ?case
    unfolding pos graph_ids_Node using dL dR nL nR LR by simp
qed

lemma length_graph_edges: "Suc (length (snd (buildGraph t parentId pos))) = ast_nodes t"
proof (induction t arbitrary: parentId pos)
  case (Node ty val l r)
  obtain px py where pos: "pos = (px, py)" by (cases pos)
  show ?case
    unfolding pos graph_edges_Node using Node.IH
    by (auto split: option.split)
qed

lemma set_graph_ids_child:
  assumes "set (map target (snd (buildGraph t parentId pos))) = set (tl (graph_ids t parentId pos))"
  shows "set (graph_ids t parentId pos) =
     insert (nodeId_of parentId (ast_type t)) (target ` set (snd (buildGraph t parentId pos)))"
proof -
  let ?ids = "graph_ids t parentId pos"
  have "?ids = hd ?ids # tl ?ids" by (simp add: graph_ids_nonempty)
  then have "set ?ids = insert (hd ?ids) (set (tl ?ids))" by (metis list.simps(15))
  then show ?thesis using assms by (simp add: graph_ids_head)
qed

lemma set_graph_edge_targets:
  "set (map target (snd (buildGraph t parentId pos))) = set (tl (graph_ids t parentId pos))"
proof (induction t arbitrary: parentId pos)
  case (Node ty val l r)
  obtain px py where pos: "pos = (px, py)" by (cases pos)
  let ?n = "nodeId_of parentId ty"
  have l: "set (graph_ids lnode (Some (?n @ ''-left'')) (px - 100, py + 100)) =
      insert (?n @ ''-left-'' @ ast_type lnode)
        (target ` set (snd (buildGraph lnode (Some (?n @ ''-left'')) (px - 100, py + 100))))"
    if "l = Some lnode" for lnode
    using set_graph_ids_child [OF Node.IH(1) [of lnode]] that by simp
  have r: "set (graph_ids rnode (Some (?n @ ''-right'')) (px + 100, py + 100)) =
      insert (?n @ ''-right-'' @ ast_type rnode)
        (target ` set (snd (buildGraph rnode (Some (?n @ ''-right'')) (px + 100, py + 100))))"
    if "r = Some rnode" for rnode
    using set_graph_ids_child [OF Node.IH(2) [of rnode]] that by simp
  show ?case
  proof (cases l)
    case None
    show ?thesis
    proof (cases r)
      case None
      with \<open>l = None\<close> show ?thesis unfolding pos graph_ids_Node graph_edges_Node by simp
    next
      case (Some rnode)
      with \<open>l = None\<close> r [OF Some] show ?thesis
        unfolding pos graph_ids_Node graph_edges_Node by auto
    qed
  next
    case (Some lnode)
    note lS = this
    show ?thesis
    proof (cases r)
      case None
      with lS l [OF lS] show ?thesis
        unfolding pos graph_ids_Node graph_edges_Node by auto
    next
      case (Some rnode)
      with lS l [OF lS] r [OF Some] show ?thesis
        unfolding pos graph_ids_Node graph_edges_Node by auto
    qed
  qed
qed

lemma distinct_graph_edge_targets:
  "distinct (map target (snd (buildGraph t parentId pos)))"
proof -
  let ?es = "snd (buildGraph t parentId pos)" and ?ids = "graph_ids t parentId pos"
  have "distinct (tl ?ids)" by (simp add: distinct_graph_ids distinct_tl)
  then have "card (set (tl ?ids)) = length (tl ?ids)" by (rule distinct_card)
  then have "card (set (map target ?es)) = length (tl ?ids)"
    by (simp only: set_graph_edge_targets)
  also have "\<dots> = length (map target ?es)"
    using length_graph_edges [of t parentId pos] length_graph_ids [of t parentId pos] by simp
  finally show ?thesis by (rule card_distinct)
qed

lemma graph_edge_sources:
  "e \<in> set (snd (buildGraph t parentId pos)) \<Longrightarrow> source e \<in> set (graph_ids t parentId pos)"
proof (induction t arbitrary: parentId pos)
  case (Node ty val l r)
  obtain px py where pos: "pos = (px, py)" by (cases pos)
  from Node.prems show ?case
    unfolding pos graph_ids_Node graph_edges_Node using Node.IH
    by (auto split: option.splits)
qed

lemma graph_edge_target_in:
  "e \<in> set (snd (buildGraph t parentId pos)) \<Longrightarrow> target e \<in> set (graph_ids t parentId pos)"
proof -
  assume "e \<in> set (snd (buildGraph t parentId pos))"
  then have "target e \<in> set (tl (graph_ids t parentId pos))"
    using set_graph_edge_targets [of t parentId pos] by auto
  then show ?thesis by (metis list.set_sel(2) graph_ids_nonempty)
qed

lemma length_ast_paths: "length (ast_paths t) = ast_nodes t"
  by (induction t) (auto split: option.split)

lemma ast_paths_subtree: "(p \<in> set (ast_paths t)) = (subtree t p \<noteq> None)"
proof (induction t arbitrary: p)
  case (Node ty val l r)
  show ?case
  proof (cases p)
    case Nil then show ?thesis by simp
  next
    case (Cons d p')
    then show ?thesis using Node.IH by (cases d) (auto split: option.split)
  qed
qed

lemma distinct_ast_paths: "distinct (ast_paths t)"
  by (induction t) (auto split: option.split simp: distinct_map)

lemma graph_nodes_Node:
  "fst (buildGraph (Node ty val l r) parentId (px, py)) =
     \<lparr>node_id = nodeId_of parentId ty, position = (px, py), label = label_of val ty,
       node_type = ''default''\<rparr> #
       (case l of None \<Rightarrow> []
        | Some lnode \<Rightarrow> fst (buildGraph lnode (Some (nodeId_of parentId ty @ ''-left'')) (px - 100, py + 100)))
       @ (case r of None \<Rightarrow> []
        | Some rnode \<Rightarrow> fst (buildGraph rnode (Some (nodeId_of parentId ty @ ''-right'')) (px + 100, py + 100)))"
  by (simp add: Let_def split: option.split prod.split)

lemma length_graph_nodes: "length (fst (buildGraph t parentId pos)) = length (ast_paths t)"
  using length_graph_ids [of t parentId pos] by (simp add: graph_ids_def length_ast_paths)

lemma path_nodes_Node:
  "path_nodes (Node ty val l r) parentId (px, py) =
     ([], \<lparr>node_id = nodeId_of parentId ty, position = (px, py), label = label_of val ty,
            node_type = ''default''\<rparr>) #
       (case l of None \<Rightarrow> []
        | Some lnode \<Rightarrow> map (\<lambda>(p, n). (OnLeft # p, n))
            (path_nodes lnode (Some (nodeId_of parentId ty @ ''-left'')) (px - 100, py + 100)))
       @ (case r of None \<Rightarrow> []
        | Some rnode \<Rightarrow> map (\<lambda>(p, n). (OnRight # p, n))
            (path_nodes rnode (Some (nodeId_of parentId ty @ ''-right'')) (px + 100, py + 100)))"
  unfolding path_nodes_def graph_nodes_Node
  by (auto split: option.split simp: length_graph_nodes zip_map1)

lemma path_nodes_root:
  "(([], n) \<in> set (path_nodes t parentId pos)) =
     (n = \<lparr>node_id = nodeId_of parentId (ast_type t), position = pos,
            label = label_of (ast_value t) (ast_type t), node_type = ''default''\<rparr>)"
  by (cases t; cases pos) (auto simp: path_nodes_Node split: option.split)

lemma parent_child_simps [simp]:
  "parent_child [] q = (q = [OnLeft] \<or> q = [OnRight])"
  "parent_child p [] = False"
  "parent_child (d # p) (d' # q) = (d = d' \<and> parent_child p q)"
  by (auto simp: parent_child_def)

lemma linked_idsI:
  assumes p: "(p, n) \<in> set zs" and q: "(q, c) \<in> set zs" and pc: "parent_child p q"
  shows "(node_id n, node_id c) \<in> set (linked_ids zs)"
proof -
  let ?x = "(node_id n, node_id c)"
  have "?x \<in> set (case (q, c) of (q, c) \<Rightarrow> if parent_child p q then [(node_id n, node_id c)] else [])"
    using pc by simp
  with q have "?x \<in> set (concat (map (\<lambda>(q, c). if parent_child p q then [(node_id n, node_id c)] else []) zs))"
    unfolding set_concat set_map by blast
  then have "?x \<in> set (case (p, n) of (p, n) \<Rightarrow>
      concat (map (\<lambda>(q, c). if parent_child p q then [(node_id n, node_id c)] else []) zs))"
    by simp
  with p show ?thesis
    unfolding linked_ids_def set_concat set_map by blast
qed

lemma linked_idsE:
  assumes "x \<in> set (linked_ids zs)"
  obtains p n q c where "x = (node_id n, node_id c)" "(p, n) \<in> set zs" "(q, c) \<in> set zs"
    "parent_child p q"
  using assms unfolding linked_ids_def by (auto split: if_splits)

lemma linked_ids_Node:
  "set (linked_ids (([], n0) # map (\<lambda>(p, n). (OnLeft # p, n)) zl @ map (\<lambda>(p, n). (OnRight # p, n)) zr)) =
     {(node_id n0, node_id c) | c. ([], c) \<in> set zl} \<union> {(node_id n0, node_id c) | c. ([], c) \<in> set zr}
       \<union> set (linked_ids zl) \<union> set (linked_ids zr)" (is "set (linked_ids ?zs) = ?B")
proof (intro set_eqI iffI)
  fix x assume "x \<in> set (linked_ids ?zs)"
  then obtain p n q c where x: "x = (node_id n, node_id c)" and p: "(p, n) \<in> set ?zs"
    and q: "(q, c) \<in> set ?zs" and pc: "parent_child p q"
    by (rule linked_idsE)
  from p q pc show "x \<in> ?B"
    unfolding x by (auto intro: linked_idsI)
next
  fix x assume "x \<in> ?B"
  then consider (l) c where "x = (node_id n0, node_id c)" "([], c) \<in> set zl"
    | (r) c where "x = (node_id n0, node_id c)" "([], c) \<in> set zr"
    | (L) "x \<in> set (linked_ids zl)" | (R) "x \<in> set (linked_ids zr)"
    by blast
  then show "x \<in> set (linked_ids ?zs)"
  proof cases
    case l
    have "([], n0) \<in> set ?zs" "([OnLeft], c) \<in> set ?zs" using l by force+
    then show ?thesis unfolding l(1) by (rule linked_idsI) simp
  next
    case r
    have "([], n0) \<in> set ?zs" "([OnRight], c) \<in> set ?zs" using r by force+
    then show ?thesis unfolding r(1) by (rule linked_idsI) simp
  next
    case L
    then obtain p n q c where x: "x = (node_id n, node_id c)" and p: "(p, n) \<in> set zl"
      and q: "(q, c) \<in> set zl" and pc: "parent_child p q"
      by (rule linked_idsE)
    have "(OnLeft # p, n) \<in> set ?zs" "(OnLeft # q, c) \<in> set ?zs" using p q by force+
    then show ?thesis unfolding x by (rule linked_idsI) (simp add: pc)
  next
    case R
    then obtain p n q c where x: "x = (node_id n, node_id c)" and p: "(p, n) \<in> set zr"
      and q: "(q, c) \<in> set zr" and pc: "parent_child p q"
      by (rule linked_idsE)
    have "(OnRight # p, n) \<in> set ?zs" "(OnRight # q, c) \<in> set ?zs" using p q by force+
    then show ?thesis unfolding x by (rule linked_idsI) (simp add: pc)
  qed
qed

lemma linked_ids_Nil [simp]: "linked_ids [] = []"
  by (simp add: linked_ids_def)

lemma graph_edge_ends:
  "set (map edge_ends (snd (buildGraph t parentId pos))) = set (linked_ids (path_nodes t parentId pos))"
proof (induction t arbitrary: parentId pos)
  case (Node ty val l r)
  obtain px py where pos: "pos = (px, py)" by (cases pos)
  let ?i = "nodeId_of parentId ty"
  let ?top = "\<lparr>node_id = ?i, position = (px, py), label = label_of val ty, node_type = ''default''\<rparr>"
  define zl where "zl = (case l of None \<Rightarrow> []
     | Some lnode \<Rightarrow> path_nodes lnode (Some (?i @ ''-left'')) (px - 100, py + 100))"
  define zr where "zr = (case r of None \<Rightarrow> []
     | Some rnode \<Rightarrow> path_nodes rnode (Some (?i @ ''-right'')) (px + 100, py + 100))"
  have Z: "path_nodes (Node ty val l r) parentId (px, py) =
      ([], ?top) # map (\<lambda>(p, n). (OnLeft # p, n)) zl @ map (\<lambda>(p, n). (OnRight # p, n)) zr"
    unfolding path_nodes_Node zl_def zr_def by (simp split: option.split)
  have rl: "{(node_id ?top, node_id c) | c. ([], c) \<in> set zl} =
      (case l of None \<Rightarrow> {} | Some lnode \<Rightarrow> {(?i, ?i @ ''-left-'' @ ast_type lnode)})"
    unfolding zl_def by (simp add: path_nodes_root split: option.split)
  have rr: "{(node_id ?top, node_id c) | c. ([], c) \<in> set zr} =
      (case r of None \<Rightarrow> {} | Some rnode \<Rightarrow> {(?i, ?i @ ''-right-'' @ ast_type rnode)})"
    unfolding zr_def by (simp add: path_nodes_root split: option.split)
  have eL: "set (linked_ids zl) = (case l of None \<Rightarrow> {}
     | Some lnode \<Rightarrow> set (map edge_ends (snd (buildGraph lnode (Some (?i @ ''-left'')) (px - 100, py + 100)))))"
    unfolding zl_def using Node.IH(1) by (simp split: option.split)
  have eR: "set (linked_ids zr) = (case r of None \<Rightarrow> {}
     | Some rnode \<Rightarrow> set (map edge_ends (snd (buildGraph rnode (Some (?i @ ''-right'')) (px + 100, py + 100)))))"
    unfolding zr_def using Node.IH(2) by (simp split: option.split)
  show ?case
    unfolding pos Z linked_ids_Node rl rr eL eR graph_edges_Node
    by (cases l; cases r; simp add: edge_ends_def; blast)
qed

lemma distinct_graph_edge_ends: "distinct (map edge_ends (snd (buildGraph t parentId pos)))"
proof -
  let ?es = "snd (buildGraph t parentId pos)"
  have "distinct (map (snd \<circ> edge_ends) ?es)"
    using distinct_graph_edge_targets [of t parentId pos] by (simp add: edge_ends_def comp_def)
  then have "distinct ?es" "inj_on (snd \<circ> edge_ends) (set ?es)"
    by (simp_all add: distinct_map)
  then show ?thesis by (auto simp: distinct_map dest: inj_on_imageI2)
qed

lemma label_at_Node [simp]:
  "label_at (Node ty val l r) [] = label_of val ty"
  "label_at (Node ty val (Some lnode) r) (OnLeft # p) = label_at lnode p"
  "label_at (Node ty val l (Some rnode)) (OnRight # p) = label_at rnode p"
  by (simp_all add: label_at_def)

lemma graph_labels:
  "map label (fst (buildGraph t parentId pos)) = map (label_at t) (ast_paths t)"
proof (induction t arbitrary: parentId pos)
  case (Node ty val l r)
  obtain px py where pos: "pos = (px, py)" by (cases pos)
  show ?case
    unfolding pos graph_nodes_Node using Node.IH
    by (auto split: option.split simp: comp_def)
qed

text \<open>
  Claim C8. For every strict binary AST, \<^verbatim>\<open>buildGraph(ast)\<close> returns exactly one graph node
  per AST node, with pairwise distinct ids, and one edge less than nodes; the source and the
  target of every edge are ids of returned nodes; and every node but the first is the target
  of exactly one edge: the targets are pairwise distinct and are the ids of those nodes.

  The graph nodes are the AST nodes in the order of the traversal: \<^verbatim>\<open>ast_paths\<close> lists every
  AST node once, there are as many graph nodes, and the graph node at a place of the list
  shows the label of the AST node at that place. The edges are the parent-child pairs, one
  edge each: no two edges have the same ends, and the pairs of ends are exactly the pairs made
  of the id of a parent's graph node and the id of its child's graph node.
\<close>

theorem buildGraph_one_node_per_ast_node:
  assumes "strict_binary t"
  shows "length (fst (buildGraph t None (0, 0))) = ast_nodes t
    \<and> distinct (map node_id (fst (buildGraph t None (0, 0))))
    \<and> length (snd (buildGraph t None (0, 0))) = ast_nodes t - 1
    \<and> (\<forall>e\<in>set (snd (buildGraph t None (0, 0))).
          source e \<in> set (map node_id (fst (buildGraph t None (0, 0))))
        \<and> target e \<in> set (map node_id (fst (buildGraph t None (0, 0)))))
    \<and> distinct (map target (snd (buildGraph t None (0, 0))))
    \<and> set (map target (snd (buildGraph t None (0, 0))))
         = set (tl (map node_id (fst (buildGraph t None (0, 0)))))
    \<and> length (ast_paths t) = ast_nodes t
    \<and> distinct (ast_paths t)
    \<and> set (ast_paths t) = {p. subtree t p \<noteq> None}
    \<and> map label (fst (buildGraph t None (0, 0))) = map (label_at t) (ast_paths t)
    \<and> distinct (map edge_ends (snd (buildGraph t None (0, 0))))
    \<and> set (map edge_ends (snd (buildGraph t None (0, 0))))
         = set (linked_ids (zip (ast_paths t) (fst (buildGraph t None (0, 0)))))"
proof -
  have counts: "length (fst (buildGraph t None (0, 0))) = ast_nodes t
    \<and> distinct (map node_id (fst (buildGraph t None (0, 0))))
    \<and> length (snd (buildGraph t None (0, 0))) = ast_nodes t - 1
    \<and> (\<forall>e\<in>set (snd (buildGraph t None (0, 0))).
          source e \<in> set (map node_id (fst (buildGraph t None (0, 0))))
        \<and> target e \<in> set (map node_id (fst (buildGraph t None (0, 0)))))
    \<and> distinct (map target (snd (buildGraph t None (0, 0))))
    \<and> set (map target (snd (buildGraph t None (0, 0))))
         = set (tl (map node_id (fst (buildGraph t None (0, 0)))))"
    using length_graph_ids [of t None "(0, 0)"] distinct_graph_ids [of t None "(0, 0)"]
      length_graph_edges [of t None "(0, 0)"] distinct_graph_edge_targets [of t None "(0, 0)"]
      set_graph_edge_targets [of t None "(0, 0)"]
      graph_edge_sources [of _ t None "(0, 0)"] graph_edge_target_in [of _ t None "(0, 0)"]
    by (auto simp: graph_ids_def)
  have paths: "set (ast_paths t) = {p. subtree t p \<noteq> None}"
    using ast_paths_subtree [of _ t] by blast
  show ?thesis
    using counts paths length_ast_paths [of t] distinct_ast_paths [of t]
      graph_labels [of t None "(0, 0)"] distinct_graph_edge_ends [of t None "(0, 0)"]
      graph_edge_ends [of t None "(0, 0)", unfolded path_nodes_def]
    by simp
qed

lemma sampleAst_graph:
  "map node_id (fst (buildGraph sampleAst None (0, 0))) =
     [''root'', ''root-left-operator'', ''root-left-operator-left-operand'',
      ''root-left-operator-right-operand'', ''root-right-operand'']
   \<and> map edge_ends (snd (buildGraph sampleAst None (0, 0))) =
     [(''root-left-operator'', ''root-left-operator-left-operand''),
      (''root-left-operator'', ''root-left-operator-right-operand''),
      (''root'', ''root-left-operator''),
      (''root'', ''root-right-operand'')]"
  by code_simp

lemma sampleAst_paths:
  "ast_paths sampleAst = [[], [OnLeft], [OnLeft, OnLeft], [OnLeft, OnRight], [OnRight]]
   \<and> map (label_at sampleAst) (ast_paths sampleAst) =
       [''OR'', ''AND'', ''age > 30'', ''department = Sales'', ''experience >= 5'']
   \<and> linked_ids (zip (ast_paths sampleAst) (fst (buildGraph sampleAst None (0, 0)))) =
       [(''root'', ''root-left-operator''), (''root'', ''root-right-operand''),
        (''root-left-operator'', ''root-left-operator-left-operand''),
        (''root-left-operator'', ''root-left-operator-right-operand'')]"
  by code_simp

theorem buildGraph_one_node_per_ast_node_witness:
  "strict_binary sampleAst
   \<and> ast_nodes sampleAst = 5
   \<and> length (fst (buildGraph sampleAst None (0, 0))) = 5
   \<and> distinct (map node_id (fst (buildGraph sampleAst None (0, 0))))
   \<and> length (snd (buildGraph sampleAst None (0, 0))) = 4
   \<and> distinct (map target (snd (buildGraph sampleAst None (0, 0))))
   \<and> set (map target (snd (buildGraph sampleAst None (0, 0))))
        = set (tl (map node_id (fst (buildGraph sampleAst None (0, 0)))))
   \<and> map node_id (fst (buildGraph sampleAst None (0, 0))) =
     [''root'', ''root-left-operator'', ''root-left-operator-left-operand'',
      ''root-left-operator-right-operand'', ''root-right-operand'']
   \<and> ast_paths sampleAst = [[], [OnLeft], [OnLeft, OnLeft], [OnLeft, OnRight], [OnRight]]
   \<and> map label (fst (buildGraph sampleAst None (0, 0))) =
       [''OR'', ''AND'', ''age > 30'', ''department = Sales'', ''experience >= 5'']
   \<and> distinct (map edge_ends (snd (buildGraph sampleAst None (0, 0))))
   \<and> set (map edge_ends (snd (buildGraph sampleAst None (0, 0)))) =
       {(''root'', ''root-left-operator''), (''root'', ''root-right-operand''),
        (''root-left-operator'', ''root-left-operator-left-operand''),
        (''root-left-operator'', ''root-left-operator-right-operand'')}"
proof -
  have s: "strict_binary sampleAst" by (simp add: sampleAst_def)
  have n: "ast_nodes sampleAst = 5" by (simp add: sampleAst_def)
  note g = buildGraph_one_node_per_ast_node [OF s]
  have ids: "map node_id (fst (buildGraph sampleAst None (0, 0))) =
     [''root'', ''root-left-operator'', ''root-left-operator-left-operand'',
      ''root-left-operator-right-operand'', ''root-right-operand'']"
    using sampleAst_graph by blast
  have paths: "ast_paths sampleAst = [[], [OnLeft], [OnLeft, OnLeft], [OnLeft, OnRight], [OnRight]]"
    using sampleAst_paths by blast
  have "map label (fst (buildGraph sampleAst None (0, 0))) =
      map (label_at sampleAst) (ast_paths sampleAst)"
    using g by blast
  also have "\<dots> = [''OR'', ''AND'', ''age > 30'', ''department = Sales'', ''experience >= 5'']"
    using sampleAst_paths by blast
  finally have labels: "map label (fst (buildGraph sampleAst None (0, 0))) =
      [''OR'', ''AND'', ''age > 30'', ''department = Sales'', ''experience >= 5'']" .
  have "set (map edge_ends (snd (buildGraph sampleAst None (0, 0)))) =
      set (linked_ids (zip (ast_paths sampleAst) (fst (buildGraph sampleAst None (0, 0)))))"
    using g by blast
  also have "linked_ids (zip (ast_paths sampleAst) (fst (buildGraph sampleAst None (0, 0)))) =
       [(''root'', ''root-left-operator''), (''root'', ''root-right-operand''),
        (''root-left-operator'', ''root-left-operator-left-operand''),
        (''root-left-operator'', ''root-left-operator-right-operand'')]"
    using sampleAst_paths by blast
  finally have ends: "set (map edge_ends (snd (buildGraph sampleAst None (0, 0)))) =
       {(''root'', ''root-left-operator''), (''root'', ''root-right-operand''),
        (''root-left-operator'', ''root-left-operator-left-operand''),
        (''root-left-operator'', ''root-left-operator-right-operand'')}"
    by simp
  have counts: "length (fst (buildGraph sampleAst None (0, 0))) = 5"
    "distinct (map node_id (fst (buildGraph sampleAst None (0, 0))))"
    "length (snd (buildGraph sampleAst None (0, 0))) = 4"
    "distinct (map target (snd (buildGraph sampleAst None (0, 0))))"
    "set (map target (snd (buildGraph sampleAst None (0, 0))))
        = set (tl (map node_id (fst (buildGraph sampleAst None (0, 0)))))"
    "distinct (map edge_ends (snd (buildGraph sampleAst None (0, 0))))"
    using g n by simp_all
  show ?thesis
    by (intro conjI s n counts ids paths labels ends)
qed

end
